theory Spec2Isabelle
  imports Main "HOL-Library.Sublist"
begin

section \<open>Exceptions\<close>

text \<open>
  The exceptions the modelled functions raise or let through. \<open>TimeoutError\<close> is the
  class declared in \<^verbatim>\<open>poi_poi.py\<close> (it shadows the builtin there); \<open>ValueError\<close> carries
  its message.
\<close>

datatype exn =
    TimeoutError
  | NodeNotFound
  | NetworkXNoPath
  | ValueError string
  | AttributeError
  | OtherError string

section \<open>Call graphs\<close>

text \<open>
  A \<^verbatim>\<open>networkx.DiGraph\<close> whose nodes are function names: the nodes and the edges, both in
  insertion order and without repetition, as the library's dictionaries keep them.
\<close>

record digraph =
  g_nodes :: "string list"
  g_edges :: "(string \<times> string) list"

definition empty_digraph :: digraph where
  "empty_digraph = \<lparr>g_nodes = [], g_edges = []\<rparr>"

text \<open>\<^verbatim>\<open>name in cg\<close>\<close>

definition has_node :: "digraph \<Rightarrow> string \<Rightarrow> bool" where
  "has_node g n = (n \<in> set (g_nodes g))"

definition add_node :: "string \<Rightarrow> digraph \<Rightarrow> digraph" where
  "add_node n g = (if n \<in> set (g_nodes g) then g else g\<lparr>g_nodes := g_nodes g @ [n]\<rparr>)"

text \<open>\<^verbatim>\<open>cg.add_edge(u, v)\<close>: both end points become nodes, the edge is stored once.\<close>

definition add_edge :: "string \<Rightarrow> string \<Rightarrow> digraph \<Rightarrow> digraph" where
  "add_edge u v g =
     (let g2 = add_node v (add_node u g)
      in if (u, v) \<in> set (g_edges g2) then g2 else g2\<lparr>g_edges := g_edges g2 @ [(u, v)]\<rparr>)"

text \<open>\<^verbatim>\<open>cg[u]\<close> / \<^verbatim>\<open>cg.successors(u)\<close> and \<^verbatim>\<open>cg.predecessors(v)\<close>.\<close>

definition successors :: "digraph \<Rightarrow> string \<Rightarrow> string list" where
  "successors g u = map snd (filter (\<lambda>e. fst e = u) (g_edges g))"

definition predecessors :: "digraph \<Rightarrow> string \<Rightarrow> string list" where
  "predecessors g v = map fst (filter (\<lambda>e. snd e = v) (g_edges g))"

text \<open>
  The invariant of every \<^verbatim>\<open>DiGraph\<close>: the end points of an edge are nodes, and no node
  is listed twice.
\<close>

definition wf_digraph :: "digraph \<Rightarrow> bool" where
  "wf_digraph g =
     (distinct (g_nodes g) \<and>
      list_all (\<lambda>e. fst e \<in> set (g_nodes g) \<and> snd e \<in> set (g_nodes g)) (g_edges g))"

text \<open>
  \<^verbatim>\<open>POI.gen_callgraph_from_file\<close>. The YAML document, once loaded, is a dictionary from a
  caller's name to the list of its callees: an association list in the document's order.
  \<^verbatim>\<open>
  callgraph = nx.DiGraph()
  for key in obj:
      for value in obj[key]:
          callgraph.add_edge(key, value)
  return callgraph
  \<close>
\<close>

definition gen_callgraph_from_file :: "(string \<times> string list) list \<Rightarrow> digraph" where
  "gen_callgraph_from_file obj =
     fold (\<lambda>(key, vals) callgraph. fold (\<lambda>value cg. add_edge key value cg) vals callgraph)
       obj empty_digraph"

subsection \<open>Simple paths\<close>

text \<open>
  \<^verbatim>\<open>networkx.all_simple_paths(G, source, target)\<close>. The library is not among the sources
  of the repository; this is its depth-first enumeration of the paths without a repeated
  node. \<open>visited\<close> is the path walked so far (it ends in \<open>u\<close>), the first argument is the
  number of edges the cutoff still allows. A child already on the path is passed over; a
  child that is a target closes a path; the search goes on through a child while some
  target is not yet on the path.
\<close>

fun all_simple_paths_graph ::
  "nat \<Rightarrow> digraph \<Rightarrow> string list \<Rightarrow> string list \<Rightarrow> string \<Rightarrow> string list list" where
  "all_simple_paths_graph 0 g targets visited u = []"
| "all_simple_paths_graph (Suc k) g targets visited u =
     concat (map (\<lambda>child.
        if child \<in> set visited then []
        else (if child \<in> set targets then [visited @ [child]] else []) @
             (if list_ex (\<lambda>t. t \<notin> set (visited @ [child])) targets
              then all_simple_paths_graph k g targets (visited @ [child]) child
              else []))
       (successors g u))"

text \<open>
  The library's entry point. A source that is no node raises \<open>NodeNotFound\<close>. A target
  that is no node is taken as an iterable of targets, and a string iterates as its
  one-character strings. A source among the targets gives no path; the cutoff is the
  number of nodes less one. (Later releases of the library yield the one-node path
  \<open>[source]\<close> when the source is a target; that differs from this model in no name.)
\<close>

definition all_simple_paths :: "digraph \<Rightarrow> string \<Rightarrow> string \<Rightarrow> exn + string list list" where
  "all_simple_paths g source target =
     (if \<not> has_node g source then Inl NodeNotFound
      else let targets = (if has_node g target then [target] else map (\<lambda>c. [c]) target);
               cutoff = length (g_nodes g) - 1
           in if source \<in> set targets then Inr []
              else Inr (all_simple_paths_graph cutoff g targets [source] source))"

subsection \<open>The predecessor walk\<close>

text \<open>
  The inner loop of \<^verbatim>\<open>find_longest_paths\<close>:
  \<^verbatim>\<open>
  for pred in predecessors:
      if pred not in seen:
          seen.add(pred)
          worklist.append(pred)
  \<close>
\<close>

fun push_unseen :: "string list \<Rightarrow> string set \<times> string list \<Rightarrow> string set \<times> string list" where
  "push_unseen [] sw = sw"
| "push_unseen (pred # preds) (seen, worklist) =
     (if pred \<in> seen then push_unseen preds (seen, worklist)
      else push_unseen preds (insert pred seen, worklist @ [pred]))"

lemma push_unseen_seen: "fst (push_unseen preds (seen, wl)) = seen \<union> set preds"
  by (induction preds arbitrary: seen wl) auto

lemma push_unseen_known: "set preds \<subseteq> seen \<Longrightarrow> push_unseen preds (seen, wl) = (seen, wl)"
  by (induction preds arbitrary: seen wl) auto

lemma push_unseen_worklist:
  "set (snd (push_unseen preds (seen, wl))) \<subseteq> set wl \<union> set preds"
proof (induction preds arbitrary: seen wl)
  case Nil
  show ?case by simp
next
  case (Cons p ps)
  show ?case
    using Cons.IH [of seen wl] Cons.IH [of "insert p seen" "wl @ [p]"] by auto
qed

text \<open>
  The \<^verbatim>\<open>while worklist:\<close> loop: pop the last node, append all its predecessors to the
  result, push the ones not seen before.
\<close>

function longest_loop ::
  "digraph \<Rightarrow> string list \<Rightarrow> string set \<Rightarrow> string list \<Rightarrow> string list" where
  "longest_loop g worklist seen longest_paths =
     (if worklist = [] then longest_paths
      else let current_node = last worklist;
               preds = predecessors g current_node;
               sw = push_unseen preds (seen, butlast worklist)
           in longest_loop g (snd sw) (fst sw) (longest_paths @ preds))"
  by pat_completeness auto
termination
proof (relation "measures [\<lambda>(g, wl, seen, acc). card (set (map fst (g_edges g)) - seen),
                           \<lambda>(g, wl, seen, acc). length wl]", goal_cases)
  case 1
  show ?case by simp
next
  case (2 g worklist seen longest_paths current_node preds sw)
  let ?src = "set (map fst (g_edges g))"
  have sub: "set preds \<subseteq> ?src"
    using 2 by (auto simp: predecessors_def)
  show ?case
  proof (cases "set preds \<subseteq> seen")
    case True
    then have "sw = (seen, butlast worklist)"
      using 2 by (simp add: push_unseen_known)
    then show ?thesis using 2 by simp
  next
    case False
    have fs: "fst sw = seen \<union> set preds"
      using 2 by (simp add: push_unseen_seen)
    have "?src - (seen \<union> set preds) \<subset> ?src - seen"
      using False sub by blast
    then have "card (?src - (seen \<union> set preds)) < card (?src - seen)"
      by (intro psubset_card_mono) auto
    then show ?thesis using fs by simp
  qed
qed

declare longest_loop.simps [simp del]

text \<open>\<^verbatim>\<open>POI.find_longest_paths\<close>: one list, the sink and all its transitive callers.\<close>

definition find_longest_paths :: "digraph \<Rightarrow> string \<Rightarrow> string list list" where
  "find_longest_paths cg sink_node =
     (let longest_paths = [sink_node]
      in if \<not> has_node cg sink_node then [longest_paths]
         else let worklist = predecessors cg sink_node;
                  seen = set worklist
              in [longest_loop cg worklist seen (longest_paths @ worklist)])"

subsection \<open>The call path engine\<close>

type_synonym harness_cfg = "(string \<times> digraph) list"

definition start_node_of :: "digraph \<Rightarrow> string" where
  "start_node_of cg =
     (if has_node cg ''LLVMFuzzerTestOneInput'' then ''LLVMFuzzerTestOneInput'' else ''main'')"

text \<open>
  The body of \<^verbatim>\<open>for harness in self.harness_cfg:\<close> in \<^verbatim>\<open>_find_paths\<close>, with the list
  \<open>call_path\<close> it extends. Only \<open>NetworkXNoPath\<close> is caught; any other exception of the
  path search leaves the function.
\<close>

fun find_paths_loop :: "harness_cfg \<Rightarrow> string \<Rightarrow> string list \<Rightarrow> exn + string list" where
  "find_paths_loop [] sink_funcname call_path = Inr call_path"
| "find_paths_loop ((harness, cg) # rest) sink_funcname call_path =
     (let start_node = start_node_of cg; sink_node = sink_funcname
      in if has_node cg start_node then
           (case all_simple_paths cg start_node sink_node of
              Inl NetworkXNoPath \<Rightarrow> find_paths_loop rest sink_funcname call_path
            | Inl e \<Rightarrow> Inl e
            | Inr paths \<Rightarrow> find_paths_loop rest sink_funcname (call_path @ concat paths))
         else find_paths_loop rest sink_funcname
                (call_path @ concat (find_longest_paths cg sink_node)))"

text \<open>
  \<^verbatim>\<open>list(set(call_path))\<close>: the names without repetition. Python fixes no order for it;
  the model keeps the order of \<open>remdups\<close> and nothing below depends on the order.
\<close>

definition list_of_set :: "string list \<Rightarrow> string list" where
  "list_of_set xs = remdups xs"

definition find_paths :: "harness_cfg \<Rightarrow> string \<Rightarrow> exn + string list" where
  "find_paths cfg sink_funcname =
     (case find_paths_loop cfg sink_funcname [sink_funcname] of
        Inl e \<Rightarrow> Inl e
      | Inr call_path \<Rightarrow> Inr (list_of_set call_path))"

text \<open>
  \<^verbatim>\<open>with_timeout(seconds)(func)()\<close>. The worker thread runs \<open>func\<close>; after
  \<^verbatim>\<open>thread.join(timeout=seconds)\<close> it is either still alive, or it has stored an
  exception, or it has stored a result.
\<close>

datatype 'a thread_outcome = StillAlive | Raised exn | Returned 'a

definition with_timeout :: "int \<Rightarrow> 'a thread_outcome \<Rightarrow> exn + 'a" where
  "with_timeout seconds outcome =
     (case outcome of
        StillAlive \<Rightarrow> Inl TimeoutError
      | Raised e \<Rightarrow> Inl e
      | Returned r \<Rightarrow> Inr r)"

text \<open>
  \<^verbatim>\<open>POI.get_call_path_to(sink_funcname, timeout_seconds)\<close>. Whether the worker outlives
  the join is not a function of the arguments: \<open>is_alive\<close> is the value of
  \<^verbatim>\<open>thread.is_alive()\<close> after the join, true when the search exceeded the timeout.
\<close>

definition get_call_path_to :: "harness_cfg \<Rightarrow> string \<Rightarrow> int \<Rightarrow> bool \<Rightarrow> exn + string list" where
  "get_call_path_to cfg sink_funcname timeout_seconds is_alive =
     (let outcome = (if is_alive then StillAlive
                     else case find_paths cfg sink_funcname of
                            Inl e \<Rightarrow> Raised e
                          | Inr r \<Rightarrow> Returned r)
      in case with_timeout timeout_seconds outcome of
           Inl TimeoutError \<Rightarrow> Inr [sink_funcname]
         | Inl e \<Rightarrow> Inl e
         | Inr r \<Rightarrow> Inr r)"

subsection \<open>Auxiliary notions for the proofs about call paths\<close>

definition edges_avoiding :: "digraph \<Rightarrow> string set \<Rightarrow> (string \<times> string) set" where
  "edges_avoiding g V = {(a, b). (a, b) \<in> set (g_edges g) \<and> b \<notin> V}"

definition harness_names :: "digraph \<Rightarrow> string \<Rightarrow> string list" where
  "harness_names g sink =
     (if has_node g (start_node_of g)
      then (case all_simple_paths g (start_node_of g) sink of Inr ps \<Rightarrow> concat ps | Inl e \<Rightarrow> [])
      else concat (find_longest_paths g sink))"

definition example_callgraph :: "(string \<times> string list) list" where
  "example_callgraph =
     [(''LLVMFuzzerTestOneInput'', [''a'']), (''a'', [''b'', ''c'']), (''b'', [''sink'']), (''c'', [])]"

definition entry_without_callees :: "(string \<times> string list) list" where
  "entry_without_callees = [(''LLVMFuzzerTestOneInput'', []), (''main'', [''helper''])]"

section \<open>The function resolver\<close>

text \<open>
  An entry of the function index, with the attributes this code reads.
\<close>

record function_index =
  funcname :: string
  start_line :: int
  end_line :: int
  is_generated_during_build :: bool

text \<open>
  The query interface of the external \<^verbatim>\<open>FunctionResolver\<close>. Every query either raises or
  returns; \<open>fr_get\<close> may return \<^verbatim>\<open>None\<close>, and so may \<open>find_matching_index\<close>. The fixed keyword
  arguments of the calls (\<^verbatim>\<open>scope="focus"\<close>, \<^verbatim>\<open>can_include_self=False\<close>,
  \<^verbatim>\<open>num_top_matches=3\<close>, ...) are part of the functions. \<open>find_matching_indices\<close> gives the
  values of the first component of the library's result: the matched identities.
\<close>

record ('loc, 'score) function_resolver =
  find_matching_index :: "string \<Rightarrow> exn + string option"
  fr_get :: "string \<Rightarrow> exn + function_index option"
  resolve_source_location :: "'loc \<Rightarrow> exn + (string \<times> 'score) list"
  find_by_filename :: "string \<Rightarrow> exn + string list"
  find_matching_indices :: "string list \<Rightarrow> exn + string list"

text \<open>
  A call inside \<^verbatim>\<open>try: ... except: x = None\<close>: any exception becomes \<^verbatim>\<open>None\<close>.
\<close>

definition or_none :: "exn + 'a option \<Rightarrow> 'a option" where
  "or_none r = (case r of Inl e \<Rightarrow> None | Inr v \<Rightarrow> v)"

definition could_not_be_resolved :: "string \<Rightarrow> exn" where
  "could_not_be_resolved function_index_str =
     ValueError (''Function index '' @ function_index_str @ '' could not be resolved.'')"

text \<open>
  \<^verbatim>\<open>POI.get_function_index_from_poi\<close>. \<open>to_loc\<close> is the imported
  \<^verbatim>\<open>function_index_to_source_location\<close>. The result \<open>Inr None\<close> is the Python value
  \<^verbatim>\<open>None\<close>. After a match of \<open>find_matching_index\<close>, the debug line reads
  \<^verbatim>\<open>resolved_function_index.is_generated_during_build\<close>, which raises \<open>AttributeError\<close>
  when the lookup of the matched key gave nothing. A candidate of
  \<open>resolve_source_location\<close> is a pair, so \<^verbatim>\<open>candidates[0][0]\<close> raises no \<open>IndexError\<close>
  once the list is not empty.
\<close>

definition get_function_index_from_poi ::
  "('loc, 'score) function_resolver \<Rightarrow> (string \<Rightarrow> function_index option \<Rightarrow> 'loc) \<Rightarrow> string
     \<Rightarrow> exn + function_index option" where
  "get_function_index_from_poi fr to_loc function_index_str =
     (case or_none (find_matching_index fr function_index_str) of
        Some resolved_function_index_key \<Rightarrow>
          (case or_none (fr_get fr resolved_function_index_key) of
             None \<Rightarrow> Inl AttributeError
           | Some resolved_function_index \<Rightarrow> Inr (Some resolved_function_index))
      | None \<Rightarrow>
          (case or_none (fr_get fr function_index_str) of
             Some resolved_function_index \<Rightarrow> Inr (Some resolved_function_index)
           | None \<Rightarrow>
               (let src_location = to_loc function_index_str None;
                    candidates = (case resolve_source_location fr src_location of
                                    Inl e \<Rightarrow> [] | Inr cs \<Rightarrow> cs)
                in if candidates = [] then Inl (could_not_be_resolved function_index_str)
                   else let actual_key = fst (hd candidates)
                        in Inr (or_none (fr_get fr actual_key)))))"

text \<open>
  \<^verbatim>\<open>get_funcindex_from_backtrace\<close> and \<^verbatim>\<open>get_funcindex_from_json\<close> (the same body in both
  classes). First the loop over the identities of the file: the ones whose line range
  holds the line. Nothing is caught here: an exception of the resolver leaves the function.
\<close>

fun covering_indices ::
  "('loc, 'score) function_resolver \<Rightarrow> int \<Rightarrow> string list \<Rightarrow> exn + string list" where
  "covering_indices fr line_number [] = Inr []"
| "covering_indices fr line_number (index_key # rest) =
     (case fr_get fr index_key of
        Inl e \<Rightarrow> Inl e
      | Inr None \<Rightarrow> covering_indices fr line_number rest
      | Inr (Some function_index) \<Rightarrow>
          (case covering_indices fr line_number rest of
             Inl e \<Rightarrow> Inl e
           | Inr func_indices \<Rightarrow>
               Inr (if start_line function_index \<le> line_number \<and> line_number \<le> end_line function_index
                    then index_key # func_indices else func_indices)))"

text \<open>
  Then the filter \<^verbatim>\<open>file_path in x\<close> (a substring test), the narrowing to the focus scope and
  \<^verbatim>\<open>list(set(...))[0]\<close>: some element of the set, \<^verbatim>\<open>None\<close> when it is empty. Python does not
  fix which element; the model takes the head of \<open>list_of_set\<close>.
\<close>

definition get_funcindex ::
  "('loc, 'score) function_resolver \<Rightarrow> string \<Rightarrow> string \<Rightarrow> int \<Rightarrow> exn + string option" where
  "get_funcindex fr func_name file_path line_number =
     (case find_by_filename fr file_path of
        Inl e \<Rightarrow> Inl e
      | Inr keys \<Rightarrow>
          (case covering_indices fr line_number keys of
             Inl e \<Rightarrow> Inl e
           | Inr func_indices \<Rightarrow>
               (let foo = filter (\<lambda>x. sublist file_path x) func_indices
                in case find_matching_indices fr foo of
                     Inl e \<Rightarrow> Inl e
                   | Inr vals \<Rightarrow>
                       (let fixed_indices = list_of_set vals
                        in if length fixed_indices < 1 then Inr None
                           else Inr (Some (hd fixed_indices))))))"

definition get_funcindex_from_backtrace ::
  "('loc, 'score) function_resolver \<Rightarrow> string \<Rightarrow> string \<Rightarrow> int \<Rightarrow> exn + string option" where
  "get_funcindex_from_backtrace = get_funcindex"

definition get_funcindex_from_json ::
  "('loc, 'score) function_resolver \<Rightarrow> string \<Rightarrow> string \<Rightarrow> int \<Rightarrow> exn + string option" where
  "get_funcindex_from_json = get_funcindex"

section \<open>The coverage-gap (optimal targets) catalog\<close>

text \<open>
  An entry of the \<^verbatim>\<open>functions\<close> list of the JSON report: a dictionary, read with
  \<^verbatim>\<open>.get(key, default)\<close>; \<open>None\<close> is a missing key. The two metrics are copied, never
  computed with; their type only needs the default \<open>0\<close>.
\<close>

record 'm function_obj =
  is_reached :: "bool option"
  raw_function_name :: "string option"
  function_filename :: "string option"
  source_line_begin :: "int option"
  source_line_end :: "int option"
  runtime_coverage_percent :: "'m option"
  accummulated_complexity :: "'m option"

text \<open>A POI of this catalog: the dictionary appended to \<^verbatim>\<open>self._pois\<close>.\<close>

record 'm oss_poi =
  o_function_index_key :: string
  o_runtime_coverage_percent :: 'm
  o_accummulated_complexity :: 'm

text \<open>\<^verbatim>\<open>d.get(key, default)\<close>\<close>

definition dict_get :: "'a option \<Rightarrow> 'a \<Rightarrow> 'a" where
  "dict_get v dflt = (case v of None \<Rightarrow> dflt | Some x \<Rightarrow> x)"

text \<open>
  \<^verbatim>\<open>OSSFuzzPOI.parse_poi_from_optimal_targets\<close>: the loop over the entries, on the list
  \<^verbatim>\<open>self._pois\<close>. \<open>resolve_path\<close> is \<^verbatim>\<open>str(Path(...).resolve())\<close>, a function of the file
  system. The result is the list when the loop ends, and the exception that ended it, if
  one did: the resolver's exceptions are not caught here.
  \<^verbatim>\<open>
  if len(self._pois) > 100:
      logger.warning("More than 100 POIs found, stopping further processing.")
      break
  self._pois.append({...})
  \<close>
\<close>

fun optimal_targets_loop ::
  "('loc, 'score) function_resolver \<Rightarrow> (string \<Rightarrow> string) \<Rightarrow> ('m::zero) function_obj list
     \<Rightarrow> 'm oss_poi list \<Rightarrow> 'm oss_poi list \<times> exn option" where
  "optimal_targets_loop fr resolve_path [] pois = (pois, None)"
| "optimal_targets_loop fr resolve_path (function_obj # rest) pois =
     (if dict_get (is_reached function_obj) False = False
      then optimal_targets_loop fr resolve_path rest pois
      else let filename = resolve_path (dict_get (function_filename function_obj) '''');
               start_line = dict_get (source_line_begin function_obj) 0;
               end_line = dict_get (source_line_end function_obj) 0
           in if start_line = 0 \<or> end_line = 0
              then optimal_targets_loop fr resolve_path rest pois
              else (case get_funcindex_from_json fr
                           (dict_get (raw_function_name function_obj) '''') filename start_line of
                      Inl e \<Rightarrow> (pois, Some e)
                    | Inr None \<Rightarrow> optimal_targets_loop fr resolve_path rest pois
                    | Inr (Some func_index) \<Rightarrow>
                        if length pois > 100 then (pois, None)
                        else optimal_targets_loop fr resolve_path rest
                               (pois @ [\<lparr>o_function_index_key = func_index,
                                         o_runtime_coverage_percent =
                                           dict_get (runtime_coverage_percent function_obj) 0,
                                         o_accummulated_complexity =
                                           dict_get (accummulated_complexity function_obj) 0\<rparr>])))"

text \<open>\<^verbatim>\<open>optimal_targets.get("functions", [])\<close> is the list the loop runs over.\<close>

definition parse_poi_from_optimal_targets ::
  "('loc, 'score) function_resolver \<Rightarrow> (string \<Rightarrow> string) \<Rightarrow> ('m::zero) function_obj list option
     \<Rightarrow> 'm oss_poi list \<Rightarrow> 'm oss_poi list \<times> exn option" where
  "parse_poi_from_optimal_targets fr resolve_path functions pois =
     optimal_targets_loop fr resolve_path (dict_get functions []) pois"

text \<open>
  \<^verbatim>\<open>OSSFuzzPOI.add_poi\<close> for a \<^verbatim>\<open>.json\<close> report, whose content is the dictionary with the
  optional key \<^verbatim>\<open>functions\<close>.
\<close>

definition oss_add_poi ::
  "('loc, 'score) function_resolver \<Rightarrow> (string \<Rightarrow> string) \<Rightarrow> ('m::zero) function_obj list option
     \<Rightarrow> 'm oss_poi list \<Rightarrow> 'm oss_poi list \<times> exn option" where
  "oss_add_poi fr resolve_path target_functions pois =
     parse_poi_from_optimal_targets fr resolve_path target_functions pois"

text \<open>
  What it means for a POI to be the conversion of a report entry: the entry is flagged
  reached, its two lines are not zero, the resolver gives the POI's identity for the
  entry's file and first line, and the POI carries the entry's two metrics.
\<close>

definition converted_from ::
  "('loc, 'score) function_resolver \<Rightarrow> (string \<Rightarrow> string) \<Rightarrow> ('m::zero) oss_poi \<Rightarrow> 'm function_obj \<Rightarrow> bool" where
  "converted_from fr resolve_path poi function_obj =
     (is_reached function_obj = Some True \<and>
      dict_get (source_line_begin function_obj) 0 \<noteq> 0 \<and>
      dict_get (source_line_end function_obj) 0 \<noteq> 0 \<and>
      get_funcindex_from_json fr (dict_get (raw_function_name function_obj) '''')
          (resolve_path (dict_get (function_filename function_obj) ''''))
          (dict_get (source_line_begin function_obj) 0) = Inr (Some (o_function_index_key poi)) \<and>
      o_runtime_coverage_percent poi = dict_get (runtime_coverage_percent function_obj) 0 \<and>
      o_accummulated_complexity poi = dict_get (accummulated_complexity function_obj) 0)"

section \<open>The crash-report catalog\<close>

subsection \<open>The stack-frame pattern\<close>

text \<open>
  The regular expression of a stack frame,
  \<^verbatim>\<open>#\d+\s+[^\s]+\s+in\s+(.+?)\s+(/\S+:\d+)\<close>, is a sequence of items: a character class
  taken once, or one or more times, greedily or lazily. A string is the sequence of its
  code points, a \<open>char\<close> being a code point below 256. The classes are Python's on such
  characters: \<^verbatim>\<open>\d\<close> (the decimal digits), \<^verbatim>\<open>\s\<close> (the white space of \<^verbatim>\<open>str.isspace\<close>: the
  ASCII white space, the separators \<^verbatim>\<open>\x1c\<close> to \<^verbatim>\<open>\x1f\<close>, the next-line character \<^verbatim>\<open>\x85\<close>
  and the no-break space \<^verbatim>\<open>\xa0\<close>), \<^verbatim>\<open>\S\<close> (also written \<^verbatim>\<open>[^\s]\<close>) and \<^verbatim>\<open>.\<close>, which is any
  character but the newline.
\<close>

datatype char_class = Lit char | Digit | Space | NonSpace | AnyChar

definition is_digit :: "char \<Rightarrow> bool" where
  "is_digit c = (c \<in> set ''0123456789'')"

definition is_space :: "char \<Rightarrow> bool" where
  "is_space c =
     (c \<in> set [CHR '' '', CHR 0x09, CHR 0x0A, CHR 0x0B, CHR 0x0C, CHR 0x0D,
               CHR 0x1C, CHR 0x1D, CHR 0x1E, CHR 0x1F, CHR 0x85, CHR 0xA0])"

fun in_class :: "char_class \<Rightarrow> char \<Rightarrow> bool" where
  "in_class (Lit c) x = (x = c)"
| "in_class Digit x = is_digit x"
| "in_class Space x = is_space x"
| "in_class NonSpace x = (\<not> is_space x)"
| "in_class AnyChar x = (x \<noteq> CHR 0x0A)"

datatype rx_item = One char_class | PlusGreedy char_class | PlusLazy char_class

text \<open>
  The backtracking matcher, anchored at the start of the string: the pieces of the string
  the items take, for the first way to match in the engine's order of trial. A greedy item
  tries the longest run first, a lazy one the shortest.
\<close>

fun rmatch :: "rx_item list \<Rightarrow> string \<Rightarrow> string list option"
  and rplus :: "rx_item list \<Rightarrow> string \<Rightarrow> nat list \<Rightarrow> string list option" where
  "rmatch [] s = Some []"
| "rmatch (One c # items) s =
     (case s of
        [] \<Rightarrow> None
      | x # xs \<Rightarrow> if in_class c x then map_option (Cons [x]) (rmatch items xs) else None)"
| "rmatch (PlusGreedy c # items) s =
     rplus items s (rev [1..<Suc (length (takeWhile (in_class c) s))])"
| "rmatch (PlusLazy c # items) s =
     rplus items s [1..<Suc (length (takeWhile (in_class c) s))]"
| "rplus items s [] = None"
| "rplus items s (k # ks) =
     (case rmatch items (drop k s) of
        Some ms \<Rightarrow> Some (take k s # ms)
      | None \<Rightarrow> rplus items s ks)"

definition line_pattern :: "rx_item list" where
  "line_pattern =
     [One (Lit (CHR ''#'')), PlusGreedy Digit, PlusGreedy Space, PlusGreedy NonSpace,
      PlusGreedy Space, One (Lit (CHR ''i'')), One (Lit (CHR ''n'')), PlusGreedy Space,
      PlusLazy AnyChar, PlusGreedy Space,
      One (Lit (CHR ''/'')), PlusGreedy NonSpace, One (Lit (CHR '':'')), PlusGreedy Digit]"

lemma rmatch_line_pattern_nonempty:
  "rmatch line_pattern s = Some ms \<Longrightarrow> 0 < length (concat ms)"
  by (cases s) (auto simp: line_pattern_def split: if_splits)

text \<open>
  \<^verbatim>\<open>re.findall(line_pattern, text)\<close>: the matches from left to right, none overlapping
  another; of each match, the two groups: the function (item 8) and the location (items 10
  to 13).
\<close>

function findall_line_pattern :: "string \<Rightarrow> (string \<times> string) list" where
  "findall_line_pattern s =
     (if s = [] then []
      else case rmatch line_pattern s of
             None \<Rightarrow> findall_line_pattern (tl s)
           | Some ms \<Rightarrow> (ms ! 8, concat (drop 10 ms)) # findall_line_pattern (drop (length (concat ms)) s))"
  by pat_completeness auto
termination
proof (relation "measure length", goal_cases)
  case 1
  show ?case by simp
next
  case (2 s)
  then show ?case by (cases s) auto
next
  case (3 s ms)
  then show ?case using rmatch_line_pattern_nonempty [of s ms] by (cases s) auto
qed

declare findall_line_pattern.simps [simp del]

subsection \<open>Pieces of a location\<close>

text \<open>\<^verbatim>\<open>s.split(sep)\<close> and \<^verbatim>\<open>sep.join(fields)\<close>.\<close>

fun split_on :: "char \<Rightarrow> string \<Rightarrow> string list" where
  "split_on sep [] = [[]]"
| "split_on sep (c # cs) =
     (if c = sep then [] # split_on sep cs
      else (case split_on sep cs of
              [] \<Rightarrow> [[c]]
            | f # fs \<Rightarrow> (c # f) # fs))"

fun join_with :: "char \<Rightarrow> string list \<Rightarrow> string" where
  "join_with sep [] = []"
| "join_with sep [x] = x"
| "join_with sep (x # y # zs) = x @ sep # join_with sep (y # zs)"

text \<open>\<^verbatim>\<open>s.rsplit(sep, 2)\<close>: at most two splits, counted from the right.\<close>

definition rsplit2 :: "char \<Rightarrow> string \<Rightarrow> string list" where
  "rsplit2 sep s =
     (let fs = split_on sep s; n = length fs
      in if n \<le> 3 then fs
         else [join_with sep (take (n - 2) fs), fs ! (n - 2), fs ! (n - 1)])"

text \<open>
  \<^verbatim>\<open>Path(filepath).name\<close>: the last component of the path, where empty components and
  \<^verbatim>\<open>.\<close> do not count; the empty string when there is none.
\<close>

definition path_name :: "string \<Rightarrow> string" where
  "path_name filepath =
     (let parts = filter (\<lambda>p. p \<noteq> [] \<and> p \<noteq> ''.'') (split_on (CHR ''/'') filepath)
      in if parts = [] then [] else last parts)"

text \<open>
  \<^verbatim>\<open>int(s)\<close> for a string without white space (the argument is cut from a match of
  \<^verbatim>\<open>\S+\<close>): an optional sign, then decimal digits, single underscores allowed between
  digits. Anything else raises \<open>ValueError\<close>; so does a literal of more than 4300 digits,
  the interpreter's default limit for the conversion of a string to an integer
  (underscores and the sign are not counted; the message then also gives the count).
\<close>

definition int_max_str_digits :: nat where
  "int_max_str_digits = 4300"

definition nat_of_digits :: "string \<Rightarrow> nat" where
  "nat_of_digits ds = foldl (\<lambda>a c. 10 * a + (of_char c - 48)) 0 ds"

fun no_double_underscore :: "string \<Rightarrow> bool" where
  "no_double_underscore (a # b # cs) =
     (\<not> (a = CHR ''_'' \<and> b = CHR ''_'') \<and> no_double_underscore (b # cs))"
| "no_double_underscore cs = True"

definition valid_int_body :: "string \<Rightarrow> bool" where
  "valid_int_body ds =
     (ds \<noteq> [] \<and> is_digit (hd ds) \<and> is_digit (last ds) \<and>
      list_all (\<lambda>c. is_digit c \<or> c = CHR ''_'') ds \<and> no_double_underscore ds)"

definition py_int :: "string \<Rightarrow> exn + int" where
  "py_int s =
     (let neg = (s \<noteq> [] \<and> hd s = CHR ''-'');
          body = (if s \<noteq> [] \<and> (hd s = CHR ''-'' \<or> hd s = CHR ''+'') then tl s else s)
      in if valid_int_body body
         then let digits = filter (\<lambda>c. c \<noteq> CHR ''_'') body
              in if length digits > int_max_str_digits
                 then Inl (ValueError
                            ''Exceeds the limit (4300 digits) for integer string conversion'')
                 else Inr ((if neg then - 1 else 1) * int (nat_of_digits digits))
         else Inl (ValueError (''invalid literal for int() with base 10: '' @
                               [CHR 0x27] @ s @ [CHR 0x27])))"

subsection \<open>Ingestion\<close>

text \<open>A POI of this catalog: the dictionary \<^verbatim>\<open>poi_obj\<close>.\<close>

record crash_poi =
  c_function_index_key :: string
  c_error_summary :: "string option"
  c_error_str :: string
  c_backtrace :: "string \<times> string"
  c_function_contains_vulnerability :: bool

text \<open>
  What \<^verbatim>\<open>parse_poi_from_crash_report\<close> reads and writes while it walks the frames: the
  attributes \<^verbatim>\<open>_pois\<close>, \<^verbatim>\<open>_block_leaders\<close> and \<^verbatim>\<open>_block_leaders_call_path\<close> of the object,
  and its locals \<^verbatim>\<open>seen_func_indices\<close> and \<^verbatim>\<open>first_leader\<close>. \<open>ps_submitted\<close> is not in the
  source: it is the trace of the calls of \<^verbatim>\<open>get_funcindex_from_backtrace\<close>, the arguments of
  each call in order, kept to state which frames reach the resolver.
\<close>

record parse_state =
  ps_pois :: "crash_poi list"
  ps_block_leaders :: "string list"
  ps_block_leaders_call_path :: "string \<rightharpoonup> string list"
  ps_seen_func_indices :: "string set"
  ps_first_leader :: "string option"
  ps_submitted :: "(string \<times> string \<times> int) list"

text \<open>
  The leader bookkeeping of one frame, after its identity was found new:
  \<^verbatim>\<open>
  funcname = self.function_resolver.get(func_index).funcname
  if leader is None:
      leader = func_index
      self._block_leaders.append(funcname)
      self._block_leaders_call_path[funcname] = []
  else:
      self._block_leaders_call_path[
          self.function_resolver.get(leader).funcname
      ].append(funcname)
  \<close>
  The result is the leader of the block and the new state, or the exception: of the
  resolver, \<open>AttributeError\<close> for \<^verbatim>\<open>None.funcname\<close>, \<open>OtherError\<close> for the \<^verbatim>\<open>KeyError\<close> of a
  missing dictionary key.
\<close>

definition note_leader ::
  "('loc, 'score) function_resolver \<Rightarrow> string \<Rightarrow> string option \<Rightarrow> parse_state
     \<Rightarrow> exn + (string \<times> parse_state)" where
  "note_leader fr func_index leader st =
     (case fr_get fr func_index of
        Inl e \<Rightarrow> Inl e
      | Inr None \<Rightarrow> Inl AttributeError
      | Inr (Some fi) \<Rightarrow>
          (let funcname' = funcname fi
           in case leader of
                None \<Rightarrow>
                  Inr (func_index,
                       st\<lparr>ps_block_leaders := ps_block_leaders st @ [funcname'],
                          ps_block_leaders_call_path := (ps_block_leaders_call_path st)(funcname' \<mapsto> [])\<rparr>)
              | Some l \<Rightarrow>
                  (case fr_get fr l of
                     Inl e \<Rightarrow> Inl e
                   | Inr None \<Rightarrow> Inl AttributeError
                   | Inr (Some lfi) \<Rightarrow>
                       (case ps_block_leaders_call_path st (funcname lfi) of
                          None \<Rightarrow> Inl (OtherError ''KeyError'')
                        | Some tail \<Rightarrow>
                            Inr (l, st\<lparr>ps_block_leaders_call_path :=
                                        (ps_block_leaders_call_path st)
                                          (funcname lfi \<mapsto> tail @ [funcname'])\<rparr>)))))"

text \<open>
  The end of the loop body: the flag of the first leader, then the capped append.
  \<^verbatim>\<open>
  if first_leader is None:
      first_leader = leader
      poi_obj["function_contains_vulnerability"] = True
  else:
      poi_obj["function_contains_vulnerability"] = False
  if len(self._pois) < 100:
      self._pois.append(poi_obj)
  \<close>
\<close>

definition append_poi ::
  "string \<Rightarrow> string option \<Rightarrow> string \<Rightarrow> string \<times> string \<Rightarrow> string \<Rightarrow> parse_state \<Rightarrow> parse_state" where
  "append_poi func_index error_summary error_str block leader st =
     (let poi_obj = \<lparr>c_function_index_key = func_index, c_error_summary = error_summary,
                       c_error_str = error_str, c_backtrace = block,
                       c_function_contains_vulnerability = (ps_first_leader st = None)\<rparr>;
          st1 = (if ps_first_leader st = None then st\<lparr>ps_first_leader := Some leader\<rparr> else st)
      in if length (ps_pois st1) < 100 then st1\<lparr>ps_pois := ps_pois st1 @ [poi_obj]\<rparr> else st1)"

text \<open>
  \<^verbatim>\<open>for func, loc in line_matches:\<close> with the block's \<open>leader\<close>. The walk stops at the
  fuzz entry and at the process entry. The \<open>ValueError\<close> of unpacking
  \<^verbatim>\<open>loc.rsplit(":", 2)\<close> into three names is caught and the frame passed over; the one of
  \<^verbatim>\<open>int(line_number)\<close> is not caught, like the resolver's exceptions. The result is the
  state when the walk ends and the exception that ended it, if one did.
\<close>

fun walk_frames ::
  "('loc, 'score) function_resolver \<Rightarrow> string option \<Rightarrow> string \<Rightarrow> string \<times> string
     \<Rightarrow> (string \<times> string) list \<Rightarrow> string option \<Rightarrow> parse_state \<Rightarrow> parse_state \<times> exn option" where
  "walk_frames fr error_summary error_str block [] leader st = (st, None)"
| "walk_frames fr error_summary error_str block ((func, loc) # rest) leader st =
     (if sublist ''LLVMFuzzerTestOneInput'' func then (st, None)
      else if sublist ''__libc_start_main'' func then (st, None)
      else case rsplit2 (CHR '':'') loc of
             [filepath, line_number, col] \<Rightarrow>
               (case py_int line_number of
                  Inl e \<Rightarrow> (st, Some e)
                | Inr n \<Rightarrow>
                    (let st1 = st\<lparr>ps_submitted := ps_submitted st @ [(func, path_name filepath, n)]\<rparr>
                     in case get_funcindex_from_backtrace fr func (path_name filepath) n of
                          Inl e \<Rightarrow> (st1, Some e)
                        | Inr None \<Rightarrow> walk_frames fr error_summary error_str block rest leader st1
                        | Inr (Some func_index) \<Rightarrow>
                            if func_index \<in> ps_seen_func_indices st1
                            then walk_frames fr error_summary error_str block rest leader st1
                            else let st2 = st1\<lparr>ps_seen_func_indices :=
                                                  insert func_index (ps_seen_func_indices st1)\<rparr>
                                 in case note_leader fr func_index leader st2 of
                                      Inl e \<Rightarrow> (st2, Some e)
                                    | Inr (leader', st3) \<Rightarrow>
                                        walk_frames fr error_summary error_str block rest (Some leader')
                                          (append_poi func_index error_summary error_str block leader' st3)))
           | _ \<Rightarrow> walk_frames fr error_summary error_str block rest leader st)"

text \<open>
  The report after the patterns other than the frame pattern have been applied to its
  text: \<^verbatim>\<open>matches\<close>, the blocks found by \<^verbatim>\<open>block_pattern\<close> (pairs of the line before the
  trace and the trace), \<^verbatim>\<open>error_summary\<close>, the \<^verbatim>\<open>SUMMARY:\<close> line if there is one, and
  \<^verbatim>\<open>actual_error_str\<close>.
\<close>

record crash_report =
  report_matches :: "(string \<times> string) list"
  report_error_summary :: "string option"
  report_actual_error_str :: string

text \<open>\<^verbatim>\<open>for block in matches:\<close> each block starts without a leader.\<close>

fun walk_blocks ::
  "('loc, 'score) function_resolver \<Rightarrow> string option \<Rightarrow> string \<Rightarrow> (string \<times> string) list
     \<Rightarrow> parse_state \<Rightarrow> parse_state \<times> exn option" where
  "walk_blocks fr error_summary error_str [] st = (st, None)"
| "walk_blocks fr error_summary error_str (block # rest) st =
     (case walk_frames fr error_summary error_str block (findall_line_pattern (snd block)) None st of
        (st', Some e) \<Rightarrow> (st', Some e)
      | (st', None) \<Rightarrow> walk_blocks fr error_summary error_str rest st')"

text \<open>
  The object: its POI list, its harness graphs, and the two attributes that exist only
  once \<^verbatim>\<open>add_poi\<close> has run (\<open>None\<close> before).
\<close>

record crash_catalog =
  c_pois :: "crash_poi list"
  harness_graphs :: harness_cfg
  block_leaders :: "string list option"
  block_leaders_call_path :: "(string \<rightharpoonup> string list) option"

text \<open>
  \<^verbatim>\<open>CrashPOI.parse_poi_from_crash_report\<close>. It starts from the attributes as \<^verbatim>\<open>add_poi\<close>
  has just set them (\<^verbatim>\<open>_block_leaders = []\<close>, \<^verbatim>\<open>_block_leaders_call_path = {}\<close>), the POI list
  as it is, and its own \<^verbatim>\<open>seen_func_indices = set()\<close> and \<^verbatim>\<open>first_leader = None\<close>.
\<close>

definition start_state :: "crash_poi list \<Rightarrow> parse_state" where
  "start_state old_pois =
     \<lparr>ps_pois = old_pois, ps_block_leaders = [], ps_block_leaders_call_path = Map.empty,
      ps_seen_func_indices = {}, ps_first_leader = None, ps_submitted = []\<rparr>"

definition parse_poi_from_crash_report ::
  "('loc, 'score) function_resolver \<Rightarrow> crash_report \<Rightarrow> crash_poi list \<Rightarrow> parse_state \<times> exn option" where
  "parse_poi_from_crash_report fr report old_pois =
     walk_blocks fr (report_error_summary report) (report_actual_error_str report)
       (report_matches report) (start_state old_pois)"

text \<open>\<^verbatim>\<open>CrashPOI.add_poi\<close>: the object afterwards, and the exception if one ended the call.\<close>

definition crash_add_poi ::
  "('loc, 'score) function_resolver \<Rightarrow> crash_report \<Rightarrow> crash_catalog \<Rightarrow> crash_catalog \<times> exn option" where
  "crash_add_poi fr report obj =
     (case parse_poi_from_crash_report fr report (c_pois obj) of
        (st, e) \<Rightarrow>
          (obj\<lparr>c_pois := ps_pois st,
               block_leaders := Some (ps_block_leaders st),
               block_leaders_call_path := Some (ps_block_leaders_call_path st)\<rparr>, e))"

text \<open>
  \<^verbatim>\<open>CrashPOI.get_call_path_to(sink_funcname)\<close>. Reading \<^verbatim>\<open>self._block_leaders_call_path\<close>
  before any \<^verbatim>\<open>add_poi\<close> raises \<open>AttributeError\<close>.
\<close>

definition crash_get_call_path_to :: "crash_catalog \<Rightarrow> string \<Rightarrow> exn + string list" where
  "crash_get_call_path_to obj sink_funcname =
     (let call_path =
            (if length (harness_graphs obj) = 1 \<and>
                \<not> has_node (snd (hd (harness_graphs obj))) ''LLVMFuzzerTestOneInput''
             then (if has_node (snd (hd (harness_graphs obj))) ''main'' then [''main''] else [])
             else [])
      in case block_leaders_call_path obj of
           None \<Rightarrow> Inl AttributeError
         | Some recorded \<Rightarrow> Inr (call_path @ [sink_funcname] @ dict_get (recorded sink_funcname) []))"

section \<open>Concrete resolvers and reports\<close>

text \<open>
  A resolver whose fuzzy match names an identity that the store no longer holds, and one
  whose only answer is a ranked candidate that the store no longer holds.
\<close>

definition stale_match_resolver :: "(unit, nat) function_resolver" where
  "stale_match_resolver =
     \<lparr>find_matching_index = (\<lambda>s. Inr (Some ''matched_key'')),
      fr_get = (\<lambda>k. Inl (OtherError ''KeyError'')),
      resolve_source_location = (\<lambda>l. Inr []),
      find_by_filename = (\<lambda>f. Inr []),
      find_matching_indices = (\<lambda>ks. Inr ks)\<rparr>"

definition stale_candidate_resolver :: "(unit, nat) function_resolver" where
  "stale_candidate_resolver =
     \<lparr>find_matching_index = (\<lambda>s. Inl (ValueError ''no match'')),
      fr_get = (\<lambda>k. Inl (OtherError ''KeyError'')),
      resolve_source_location = (\<lambda>l. Inr [(''candidate_key'', 1)]),
      find_by_filename = (\<lambda>f. Inr []),
      find_matching_indices = (\<lambda>ks. Inr ks)\<rparr>"

text \<open>
  A store with one function per file, \<open>index:\<close> followed by the file's name, that spans the
  lines 1 to 100.
\<close>

definition source_resolver :: "(unit, nat) function_resolver" where
  "source_resolver =
     \<lparr>find_matching_index = (\<lambda>s. Inl (ValueError ''no match'')),
      fr_get = (\<lambda>k. Inr (Some \<lparr>funcname = k, start_line = 1, end_line = 100,
                                  is_generated_during_build = False\<rparr>)),
      resolve_source_location = (\<lambda>l. Inr []),
      find_by_filename = (\<lambda>f. Inr [''index:'' @ f]),
      find_matching_indices = (\<lambda>ks. Inr ks)\<rparr>"

text \<open>Entries of a coverage-gap report: a reached one, an unreached one, one without lines.\<close>

definition reached_entry :: "int function_obj" where
  "reached_entry =
     \<lparr>is_reached = Some True, raw_function_name = Some ''target'',
      function_filename = Some ''/src/lib.c'', source_line_begin = Some 5,
      source_line_end = Some 9, runtime_coverage_percent = Some 40,
      accummulated_complexity = Some 7\<rparr>"

definition unreached_entry :: "int function_obj" where
  "unreached_entry = reached_entry\<lparr>is_reached := Some False\<rparr>"

definition lineless_entry :: "int function_obj" where
  "lineless_entry = reached_entry\<lparr>source_line_end := Some 0\<rparr>"

definition reached_poi :: "int oss_poi" where
  "reached_poi =
     \<lparr>o_function_index_key = ''index:/src/lib.c'', o_runtime_coverage_percent = 40,
      o_accummulated_complexity = 7\<rparr>"





definition same_function_frames :: string where
  "same_function_frames =
     ''    #0 0x55d in foo /src/a.c:12:5'' @ [CHR 0x0A] @ ''    #1 0x55e in bar /src/a.c:20:3''"

definition same_function_report :: crash_report where
  "same_function_report =
     \<lparr>report_matches = [('''', same_function_frames)],
      report_error_summary = None,
      report_actual_error_str = ''''\<rparr>"

definition leader_report :: crash_report where
  "leader_report =
     \<lparr>report_matches =
        [('''', ''    #0 0x55d in foo /src/a.c:12:5'' @ [CHR 0x0A] @
               ''    #1 0x55e in baz /src/b.c:7:1'' @ [CHR 0x0A] @
               ''    #2 0x55f in LLVMFuzzerTestOneInput /src/fuzz.c:3:1'')],
      report_error_summary = None,
      report_actual_error_str = ''''\<rparr>"

text \<open>
  A report of 102 traces of one frame each: a hundred in the files \<^verbatim>\<open>aa.c\<close> to \<^verbatim>\<open>jj.c\<close>, then
  two in \<^verbatim>\<open>x.c\<close>, at the lines 5 and 6.
\<close>

definition one_frame_block :: "string \<Rightarrow> string \<Rightarrow> string \<times> string" where
  "one_frame_block name line = ('''', ''    #0 0x1 in f /src/'' @ name @ ''.c:'' @ line @ '':1'')"

definition hundred_names :: "string list" where
  "hundred_names = concat (map (\<lambda>x. map (\<lambda>y. [x, y]) ''abcdefghij'') ''abcdefghij'')"

definition full_report :: crash_report where
  "full_report =
     \<lparr>report_matches = map (\<lambda>name. one_frame_block name ''5'') hundred_names @
                        [one_frame_block ''x'' ''5'', one_frame_block ''x'' ''6''],
      report_error_summary = None,
      report_actual_error_str = ''''\<rparr>"

text \<open>
  The state of a full catalog in which the identity of \<^verbatim>\<open>x.c\<close> was seen, through both of its
  frames, and has no POI.
\<close>

definition seen_without_poi :: "parse_state \<Rightarrow> bool" where
  "seen_without_poi st =
     (length (ps_pois st) = 100 \<and>
      (''f'', ''x.c'', 5) \<in> set (ps_submitted st) \<and>
      (''f'', ''x.c'', 6) \<in> set (ps_submitted st) \<and>
      ''index:x.c'' \<in> ps_seen_func_indices st \<and>
      filter (\<lambda>p. c_function_index_key p = ''index:x.c'') (ps_pois st) = [])"

text \<open>A crash catalog before any report, with one harness graph that starts at \<open>main\<close>.\<close>

definition fresh_catalog :: crash_catalog where
  "fresh_catalog =
     \<lparr>c_pois = [],
      harness_graphs = [(''harness'', gen_callgraph_from_file [(''main'', [''index:a.c''])])],
      block_leaders = None,
      block_leaders_call_path = None\<rparr>"

subsection \<open>Auxiliary notions for the proofs about the frame walk\<close>

text \<open>The frames at which the walk stops: the fuzz entry and the process entry.\<close>

definition stop_frame :: "string \<Rightarrow> bool" where
  "stop_frame func = (sublist ''LLVMFuzzerTestOneInput'' func \<or> sublist ''__libc_start_main'' func)"

text \<open>What holds of the state all along a walk.\<close>

definition walk_inv ::
  "('loc, 'score) function_resolver \<Rightarrow> crash_poi list \<Rightarrow> parse_state \<Rightarrow> bool" where
  "walk_inv fr old st =
     ((\<exists>new. ps_pois st = old @ new \<and> distinct (map c_function_index_key new) \<and>
             set (map c_function_index_key new) \<subseteq> ps_seen_func_indices st) \<and>
      (\<forall>q \<in> set (ps_submitted st). \<forall>k.
          get_funcindex_from_backtrace fr (fst q) (fst (snd q)) (snd (snd q)) = Inr (Some k) \<longrightarrow>
          k \<in> ps_seen_func_indices st))"

text \<open>
  What holds between frames while nothing was raised: below the cap, every identity seen
  has its POI.
\<close>

definition walk_full :: "crash_poi list \<Rightarrow> parse_state \<Rightarrow> bool" where
  "walk_full old st =
     (length (ps_pois st) < 100 \<longrightarrow>
      ps_seen_func_indices st \<subseteq> set (map c_function_index_key (drop (length old) (ps_pois st))))"

section \<open>Properties of call graphs and of the call path engine\<close>


lemma g_edges_add_node [simp]: "g_edges (add_node n g) = g_edges g"
  by (simp add: add_node_def)

lemma set_nodes_add_node [simp]: "set (g_nodes (add_node n g)) = insert n (set (g_nodes g))"
  by (auto simp: add_node_def)

lemma set_edges_add_edge [simp]: "set (g_edges (add_edge u v g)) = insert (u, v) (set (g_edges g))"
  by (auto simp: add_edge_def Let_def)

lemma set_nodes_add_edge [simp]:
  "set (g_nodes (add_edge u v g)) = insert u (insert v (set (g_nodes g)))"
  by (auto simp: add_edge_def Let_def)

lemma distinct_nodes_add_node: "distinct (g_nodes g) \<Longrightarrow> distinct (g_nodes (add_node n g))"
  by (simp add: add_node_def)

lemma wf_add_edge: "wf_digraph g \<Longrightarrow> wf_digraph (add_edge u v g)"
  unfolding wf_digraph_def list_all_iff
  by (auto simp: add_edge_def Let_def distinct_nodes_add_node)

lemma wf_empty: "wf_digraph empty_digraph"
  by (simp add: wf_digraph_def empty_digraph_def)

lemma fold_add_edge_edges:
  "set (g_edges (fold (\<lambda>value cg. add_edge key value cg) vals g)) = set (g_edges g) \<union> {key} \<times> set vals"
  by (induction vals arbitrary: g) auto

lemma fold_add_edge_nodes:
  "set (g_nodes (fold (\<lambda>value cg. add_edge key value cg) vals g)) =
     set (g_nodes g) \<union> (if vals = [] then {} else insert key (set vals))"
  by (induction vals arbitrary: g) auto

lemma fold_add_edge_wf:
  "wf_digraph g \<Longrightarrow> wf_digraph (fold (\<lambda>value cg. add_edge key value cg) vals g)"
  by (induction vals arbitrary: g) (auto simp: wf_add_edge)

lemma fold_callees_edges:
  "set (g_edges (fold (\<lambda>(key, vals) callgraph. fold (\<lambda>value cg. add_edge key value cg) vals callgraph) obj g)) =
     set (g_edges g) \<union> {(k, v). \<exists>vs. (k, vs) \<in> set obj \<and> v \<in> set vs}"
  by (induction obj arbitrary: g) (auto simp: fold_add_edge_edges)

lemma fold_callees_nodes:
  "set (g_nodes (fold (\<lambda>(key, vals) callgraph. fold (\<lambda>value cg. add_edge key value cg) vals callgraph) obj g)) =
     set (g_nodes g) \<union> {n. \<exists>k vs. (k, vs) \<in> set obj \<and> vs \<noteq> [] \<and> (n = k \<or> n \<in> set vs)}"
  by (induction obj arbitrary: g) (auto simp: fold_add_edge_nodes split: if_splits, blast+)

lemma fold_callees_wf:
  "wf_digraph g \<Longrightarrow> wf_digraph (fold (\<lambda>(key, vals) callgraph. fold (\<lambda>value cg. add_edge key value cg) vals callgraph) obj g)"
  by (induction obj arbitrary: g) (auto simp: fold_add_edge_wf)

lemma gen_callgraph_edges:
  "set (g_edges (gen_callgraph_from_file obj)) = {(k, v). \<exists>vs. (k, vs) \<in> set obj \<and> v \<in> set vs}"
  by (simp add: gen_callgraph_from_file_def fold_callees_edges empty_digraph_def)

lemma gen_callgraph_nodes:
  "set (g_nodes (gen_callgraph_from_file obj)) = {n. \<exists>k vs. (k, vs) \<in> set obj \<and> vs \<noteq> [] \<and> (n = k \<or> n \<in> set vs)}"
  by (simp add: gen_callgraph_from_file_def fold_callees_nodes empty_digraph_def)

lemma gen_callgraph_wf: "wf_digraph (gen_callgraph_from_file obj)"
  by (simp add: gen_callgraph_from_file_def fold_callees_wf wf_empty)

lemma successors_iff: "c \<in> set (successors g u) \<longleftrightarrow> (u, c) \<in> set (g_edges g)"
  by (force simp: successors_def)

lemma predecessors_iff: "p \<in> set (predecessors g v) \<longleftrightarrow> (p, v) \<in> set (g_edges g)"
  by (force simp: predecessors_def)

lemma wf_edge_nodes:
  "wf_digraph g \<Longrightarrow> (u, v) \<in> set (g_edges g) \<Longrightarrow> u \<in> set (g_nodes g) \<and> v \<in> set (g_nodes g)"
  by (auto simp: wf_digraph_def list_all_iff)

lemma simple_paths_names:
  "p \<in> set (all_simple_paths_graph k g ts visited u) \<Longrightarrow>
     set visited \<subseteq> set p \<and> set p \<subseteq> set visited \<union> snd ` set (g_edges g)"
proof (induction k arbitrary: visited u)
  case 0
  then show ?case by simp
next
  case (Suc k)
  from Suc.prems obtain c where c: "c \<in> set (successors g u)"
    and p: "p = visited @ [c] \<or> p \<in> set (all_simple_paths_graph k g ts (visited @ [c]) c)"
    by (auto split: if_splits)
  from c have cs: "c \<in> snd ` set (g_edges g)"
    by (force simp: successors_iff)
  from p show ?case
  proof
    assume "p = visited @ [c]"
    with cs show ?thesis by auto
  next
    assume "p \<in> set (all_simple_paths_graph k g ts (visited @ [c]) c)"
    from Suc.IH [OF this] cs show ?thesis by auto
  qed
qed

lemma avoid_start:
  "(c, t) \<in> R\<^sup>* \<Longrightarrow> c \<noteq> t \<Longrightarrow> (c, t) \<in> {(a, b). (a, b) \<in> R \<and> b \<noteq> c}\<^sup>+"
proof (induction rule: rtrancl_induct)
  case base
  then show ?case by simp
next
  case (step y z)
  show ?case
  proof (cases "y = c")
    case True
    with step show ?thesis by auto
  next
    case False
    with step have "(c, y) \<in> {(a, b). (a, b) \<in> R \<and> b \<noteq> c}\<^sup>+" by simp
    moreover have "(y, z) \<in> {(a, b). (a, b) \<in> R \<and> b \<noteq> c}" using step by simp
    ultimately show ?thesis by (rule trancl_into_trancl)
  qed
qed

lemma trancl_target: "(u, t) \<in> (edges_avoiding g V)\<^sup>+ \<Longrightarrow> t \<notin> V"
  by (induction rule: trancl_induct) (auto simp: edges_avoiding_def)

lemma concat_map_nonempty: "x \<in> set xs \<Longrightarrow> f x \<noteq> [] \<Longrightarrow> concat (map f xs) \<noteq> []"
  by (induction xs) auto

lemma simple_paths_complete:
  "wf_digraph g \<Longrightarrow> (u, t) \<in> (edges_avoiding g (set visited))\<^sup>+ \<Longrightarrow>
   card (set (g_nodes g) - set visited) \<le> k \<Longrightarrow>
   all_simple_paths_graph k g [t] visited u \<noteq> []"
proof (induction k arbitrary: visited u)
  case 0
  from "0.prems"(2) obtain c where c: "(u, c) \<in> edges_avoiding g (set visited)"
    by (meson tranclD)
  then have "c \<in> set (g_nodes g) - set visited"
    using wf_edge_nodes [OF "0.prems"(1)] by (auto simp: edges_avoiding_def)
  then have "card (set (g_nodes g) - set visited) \<noteq> 0"
    by auto
  with "0.prems"(3) show ?case by simp
next
  case (Suc k)
  let ?V = "set visited"
  from Suc.prems(2) obtain c where uc: "(u, c) \<in> edges_avoiding g ?V"
    and ct: "(c, t) \<in> (edges_avoiding g ?V)\<^sup>*"
    by (meson tranclD)
  have tV: "t \<notin> ?V" using Suc.prems(2) by (rule trancl_target)
  from uc have cV: "c \<notin> ?V" and ce: "(u, c) \<in> set (g_edges g)"
    by (auto simp: edges_avoiding_def)
  have cn: "c \<in> set (g_nodes g)" using wf_edge_nodes [OF Suc.prems(1) ce] by simp
  have csucc: "c \<in> set (successors g u)" using ce by (simp add: successors_iff)
  have "(if c \<in> set visited then []
         else (if c \<in> set [t] then [visited @ [c]] else []) @
              (if list_ex (\<lambda>x. x \<notin> set (visited @ [c])) [t]
               then all_simple_paths_graph k g [t] (visited @ [c]) c else [])) \<noteq> []"
  proof (cases "c = t")
    case True
    with cV show ?thesis by simp
  next
    case False
    have "{(a, b). (a, b) \<in> edges_avoiding g ?V \<and> b \<noteq> c} = edges_avoiding g (set (visited @ [c]))"
      by (auto simp: edges_avoiding_def)
    with avoid_start [OF ct False]
    have "(c, t) \<in> (edges_avoiding g (set (visited @ [c])))\<^sup>+"
      by simp
    moreover have "card (set (g_nodes g) - set (visited @ [c])) \<le> k"
    proof -
      have "set (g_nodes g) - set (visited @ [c]) = (set (g_nodes g) - ?V) - {c}" by auto
      moreover have "c \<in> set (g_nodes g) - ?V" using cn cV by simp
      ultimately have "card (set (g_nodes g) - set (visited @ [c])) = card (set (g_nodes g) - ?V) - 1"
        by (simp add: card_Diff_singleton)
      with Suc.prems(3) show ?thesis by simp
    qed
    ultimately have "all_simple_paths_graph k g [t] (visited @ [c]) c \<noteq> []"
      using Suc.IH Suc.prems(1) by blast
    with cV False tV show ?thesis by simp
  qed
  then show ?case
    unfolding all_simple_paths_graph.simps
    by (intro concat_map_nonempty [where x = c] csucc)
qed

lemma all_simple_paths_ok:
  assumes "has_node g s"
  shows "\<exists>ps. all_simple_paths g s t = Inr ps \<and>
           (\<forall>p \<in> set ps. set p \<subseteq> insert s (snd ` set (g_edges g)))"
  using assms by (auto simp: all_simple_paths_def Let_def dest!: simple_paths_names)

lemma all_simple_paths_reach:
  assumes wf: "wf_digraph g" and t: "has_node g t" and st: "s \<noteq> t"
    and r: "(s, t) \<in> (set (g_edges g))\<^sup>*"
  shows "\<exists>ps. all_simple_paths g s t = Inr ps \<and> s \<in> set (concat ps)"
proof -
  from avoid_start [OF r st] have tr: "(s, t) \<in> (edges_avoiding g (set [s]))\<^sup>+"
    by (simp add: edges_avoiding_def)
  then obtain c where "(s, c) \<in> set (g_edges g)"
    by (auto dest!: tranclD simp: edges_avoiding_def)
  then have sn: "s \<in> set (g_nodes g)" using wf_edge_nodes [OF wf] by blast
  have "card (set (g_nodes g) - set [s]) \<le> length (g_nodes g) - 1"
    using sn card_length [of "g_nodes g"] by (simp add: card_Diff_singleton)
  from simple_paths_complete [OF wf tr this]
  obtain p ps where ps: "all_simple_paths_graph (length (g_nodes g) - 1) g [t] [s] s = p # ps"
    by (cases "all_simple_paths_graph (length (g_nodes g) - 1) g [t] [s] s") auto
  then have "p \<in> set (all_simple_paths_graph (length (g_nodes g) - 1) g [t] [s] s)" by simp
  from simple_paths_names [OF this] have "s \<in> set p" by simp
  with ps have "s \<in> set (concat (all_simple_paths_graph (length (g_nodes g) - 1) g [t] [s] s))"
    by simp
  with sn t st show ?thesis
    by (simp add: all_simple_paths_def has_node_def)
qed

lemma longest_loop_Nil: "longest_loop g [] seen longest_paths = longest_paths"
  by (simp add: longest_loop.simps)

lemma longest_loop_names:
  "set longest_paths \<subseteq> set (longest_loop g worklist seen longest_paths) \<and>
   set (longest_loop g worklist seen longest_paths) \<subseteq> set longest_paths \<union> fst ` set (g_edges g)"
proof (induction g worklist seen longest_paths rule: longest_loop.induct)
  case (1 g worklist seen longest_paths)
  show ?case
  proof (cases "worklist = []")
    case True
    then show ?thesis by (simp add: longest_loop_Nil)
  next
    case False
    let ?preds = "predecessors g (last worklist)"
    let ?sw = "push_unseen ?preds (seen, butlast worklist)"
    have step: "longest_loop g worklist seen longest_paths =
                longest_loop g (snd ?sw) (fst ?sw) (longest_paths @ ?preds)"
      using False by (subst longest_loop.simps) (simp add: Let_def)
    have "set ?preds \<subseteq> fst ` set (g_edges g)"
      by (force simp: predecessors_iff)
    with "1.IH" [OF False refl refl refl] show ?thesis
      unfolding step by auto
  qed
qed

lemma find_longest_paths_names:
  "sink \<in> set (concat (find_longest_paths g sink)) \<and>
   set (concat (find_longest_paths g sink)) \<subseteq> insert sink (fst ` set (g_edges g))"
proof -
  have "set (predecessors g sink) \<subseteq> fst ` set (g_edges g)"
    by (force simp: predecessors_iff)
  then show ?thesis
    using longest_loop_names [of "sink # predecessors g sink" g "predecessors g sink" "set (predecessors g sink)"]
    by (auto simp: find_longest_paths_def Let_def)
qed

lemma find_paths_loop_closed:
  "find_paths_loop cfg sink cp = Inr (cp @ concat (map (\<lambda>hg. harness_names (snd hg) sink) cfg))"
proof (induction cfg arbitrary: cp)
  case Nil
  show ?case by simp
next
  case (Cons hg cfg)
  obtain h g where hg: "hg = (h, g)" by (cases hg)
  show ?case
  proof (cases "has_node g (start_node_of g)")
    case True
    from all_simple_paths_ok [OF True, of sink] obtain ps where
      ps: "all_simple_paths g (start_node_of g) sink = Inr ps" by blast
    have "find_paths_loop (hg # cfg) sink cp = find_paths_loop cfg sink (cp @ concat ps)"
      using True ps by (simp add: hg Let_def)
    also have "\<dots> = Inr ((cp @ concat ps) @ concat (map (\<lambda>hg. harness_names (snd hg) sink) cfg))"
      by (rule Cons.IH)
    finally show ?thesis using True ps by (simp add: hg harness_names_def)
  next
    case False
    have "find_paths_loop (hg # cfg) sink cp =
          find_paths_loop cfg sink (cp @ concat (find_longest_paths g sink))"
      using False by (simp add: hg Let_def)
    also have "\<dots> = Inr ((cp @ concat (find_longest_paths g sink)) @
                          concat (map (\<lambda>hg. harness_names (snd hg) sink) cfg))"
      by (rule Cons.IH)
    finally show ?thesis using False by (simp add: hg harness_names_def)
  qed
qed

lemma harness_names_nodes:
  assumes wf: "wf_digraph g"
  shows "set (harness_names g sink) \<subseteq> insert sink (set (g_nodes g))"
proof -
  have en: "fst ` set (g_edges g) \<subseteq> set (g_nodes g)" "snd ` set (g_edges g) \<subseteq> set (g_nodes g)"
    using wf_edge_nodes [OF wf] by auto
  show ?thesis
  proof (cases "has_node g (start_node_of g)")
    case True
    from all_simple_paths_ok [OF True, of sink] obtain ps where
      ps: "all_simple_paths g (start_node_of g) sink = Inr ps"
      and sub: "\<forall>p \<in> set ps. set p \<subseteq> insert (start_node_of g) (snd ` set (g_edges g))"
      by blast
    have "set (concat ps) \<subseteq> set (g_nodes g)"
    proof
      fix x assume "x \<in> set (concat ps)"
      then obtain p where "p \<in> set ps" "x \<in> set p" by auto
      with sub have "x = start_node_of g \<or> x \<in> snd ` set (g_edges g)" by blast
      with True en(2) show "x \<in> set (g_nodes g)" by (auto simp: has_node_def)
    qed
    with True ps show ?thesis by (auto simp: harness_names_def)
  next
    case False
    from find_longest_paths_names [of sink g] en(1)
    have "set (concat (find_longest_paths g sink)) \<subseteq> insert sink (set (g_nodes g))"
      by blast
    with False show ?thesis by (simp add: harness_names_def)
  qed
qed

lemma harness_names_entry:
  assumes wf: "wf_digraph g" and t: "has_node g sink"
    and ne: "start_node_of g \<noteq> sink"
    and r: "(start_node_of g, sink) \<in> (set (g_edges g))\<^sup>*"
  shows "start_node_of g \<in> set (harness_names g sink)"
proof -
  from all_simple_paths_reach [OF wf t ne r] obtain ps where
    ps: "all_simple_paths g (start_node_of g) sink = Inr ps" "start_node_of g \<in> set (concat ps)"
    by blast
  have "has_node g (start_node_of g)"
  proof (rule ccontr)
    assume "\<not> has_node g (start_node_of g)"
    with ps(1) show False by (simp add: all_simple_paths_def)
  qed
  with ps show ?thesis by (simp add: harness_names_def)
qed

text \<open>
  \<^bold>\<open>C2.\<close> Whatever the cached graphs, the sink's name and the timeout value: when the worker
  thread is still alive after the join (the search exceeded the timeout),
  \<open>get_call_path_to\<close> returns normally, and what it returns is exactly the one-element
  list of the sink's name. The timeout is not passed on as an error.
\<close>

theorem get_call_path_to_timeout:
  "get_call_path_to cfg sink_funcname timeout_seconds True = Inr [sink_funcname]"
  by (simp add: get_call_path_to_def with_timeout_def)

lemma find_paths_closed:
  "find_paths cfg sink = Inr (list_of_set (sink # concat (map (\<lambda>hg. harness_names (snd hg) sink) cfg)))"
  by (simp add: find_paths_def find_paths_loop_closed)

lemma get_call_path_to_finished:
  "get_call_path_to cfg sink t False =
     Inr (list_of_set (sink # concat (map (\<lambda>hg. harness_names (snd hg) sink) cfg)))"
  by (simp add: get_call_path_to_def with_timeout_def find_paths_closed)

text \<open>
  \<^bold>\<open>C3\<close>, as it holds of the code. In every case (timed out or not, whatever the graphs, also
  when no graph holds the sink) \<open>get_call_path_to\<close> returns a list that holds the sink's own
  name. Let the cached graphs be well formed, as the library keeps them, and let the sink
  be a node of a cached harness graph \<open>g\<close>, reachable there from the entry node of \<open>g\<close>
  (\<open>LLVMFuzzerTestOneInput\<close> if it is a node, else \<open>main\<close>). Then every name returned is a
  node of some cached graph; and when the search finishes within the timeout, what is
  returned are the names that \<open>_find_paths\<close> computes, and they include that entry node and
  the sink.
\<close>

theorem get_call_path_to_sound:
  "\<exists>r. get_call_path_to cfg sink t is_alive = Inr r \<and> sink \<in> set r \<and>
       (list_all (\<lambda>hg. wf_digraph (snd hg)) cfg \<and> (h, g) \<in> set cfg \<and> has_node g sink \<and>
        (start_node_of g, sink) \<in> (set (g_edges g))\<^sup>* \<longrightarrow>
          (\<forall>n \<in> set r. \<exists>hg \<in> set cfg. has_node (snd hg) n) \<and>
          (\<not> is_alive \<longrightarrow> find_paths cfg sink = Inr r \<and> {start_node_of g, sink} \<subseteq> set r))"
proof (cases is_alive)
  case True
  have "\<exists>hg \<in> set cfg. has_node (snd hg) sink" if "(h, g) \<in> set cfg" "has_node g sink"
    using that by force
  with True show ?thesis
    by (simp add: get_call_path_to_def with_timeout_def)
next
  case False
  let ?names = "sink # concat (map (\<lambda>hg. harness_names (snd hg) sink) cfg)"
  have ret: "get_call_path_to cfg sink t is_alive = Inr (list_of_set ?names)"
    using False by (simp add: get_call_path_to_finished)
  have fp: "find_paths cfg sink = Inr (list_of_set ?names)"
    by (rule find_paths_closed)
  have sink: "sink \<in> set (list_of_set ?names)"
    by (simp add: list_of_set_def)
  have rest: "(\<forall>n \<in> set (list_of_set ?names). \<exists>hg \<in> set cfg. has_node (snd hg) n) \<and>
              start_node_of g \<in> set (list_of_set ?names)"
    if a: "list_all (\<lambda>hg. wf_digraph (snd hg)) cfg \<and> (h, g) \<in> set cfg \<and> has_node g sink \<and>
           (start_node_of g, sink) \<in> (set (g_edges g))\<^sup>*"
  proof -
    from a have wfs: "\<And>hg. hg \<in> set cfg \<Longrightarrow> wf_digraph (snd hg)"
      and hg: "(h, g) \<in> set cfg" and sn: "has_node g sink"
      and reach: "(start_node_of g, sink) \<in> (set (g_edges g))\<^sup>*"
      by (auto simp: list_all_iff)
    have wf: "wf_digraph g" using wfs [OF hg] by simp
    have entry: "start_node_of g \<in> set ?names"
    proof (cases "start_node_of g = sink")
      case True
      then show ?thesis by simp
    next
      case False
      from harness_names_entry [OF wf sn False reach] hg show ?thesis by force
    qed
    have nodes: "\<exists>hg \<in> set cfg. has_node (snd hg) n" if n: "n \<in> set ?names" for n
    proof (cases "n = sink")
      case True
      with hg sn show ?thesis by force
    next
      case False
      with n obtain hg' where hg': "hg' \<in> set cfg" "n \<in> set (harness_names (snd hg') sink)"
        by auto
      from harness_names_nodes [OF wfs [OF hg'(1)], of sink] hg'(2) False
      have "has_node (snd hg') n" by (auto simp: has_node_def)
      with hg'(1) show ?thesis by blast
    qed
    from entry nodes show ?thesis
      unfolding list_of_set_def set_remdups by blast
  qed
  from ret fp sink rest False show ?thesis by auto
qed

lemma example_graph:
  "gen_callgraph_from_file example_callgraph =
     \<lparr>g_nodes = [''LLVMFuzzerTestOneInput'', ''a'', ''b'', ''c'', ''sink''],
      g_edges = [(''LLVMFuzzerTestOneInput'', ''a''), (''a'', ''b''), (''a'', ''c''), (''b'', ''sink'')]\<rparr>"
  by (simp add: example_callgraph_def gen_callgraph_from_file_def add_edge_def add_node_def empty_digraph_def)


lemma example_find_paths:
  "find_paths_loop [(h, gen_callgraph_from_file example_callgraph)] ''sink'' [''sink''] =
     Inr [''sink'', ''LLVMFuzzerTestOneInput'', ''a'', ''b'', ''sink'']"
  unfolding example_graph
  by (simp add: start_node_of_def has_node_def all_simple_paths_def successors_def numeral_eq_Suc Let_def)

text \<open>
  \<^bold>\<open>C5.\<close> For the call graph loaded from
  \<^verbatim>\<open>{"LLVMFuzzerTestOneInput": ["a"], "a": ["b", "c"], "b": ["sink"], "c": []}\<close>, cached for
  one harness, a search for \<open>sink\<close> that finishes in time returns exactly the names
  \<open>LLVMFuzzerTestOneInput\<close>, \<open>a\<close>, \<open>b\<close>, \<open>sink\<close>; \<open>c\<close> is not among them.
\<close>

theorem get_call_path_to_example:
  "\<exists>r. get_call_path_to [(h, gen_callgraph_from_file example_callgraph)] ''sink'' t False = Inr r \<and>
       set r = {''LLVMFuzzerTestOneInput'', ''a'', ''b'', ''sink''} \<and> ''c'' \<notin> set r"
  unfolding get_call_path_to_def find_paths_def example_find_paths
  by (simp add: with_timeout_def list_of_set_def insert_commute)

text \<open>
  \<^bold>\<open>C10.\<close> For a YAML mapping from callers to callee lists (a dictionary: no key twice),
  the graph built by \<open>gen_callgraph_from_file\<close> has the edge \<open>(caller, callee)\<close> exactly when
  the callee is in the caller's list. Hence a function mapped to the empty list is a node
  of the graph exactly when some other function lists it as a callee: an entry function
  with no recorded callees, called by nobody, is absent from the graph.
\<close>

theorem gen_callgraph_from_file_edges:
  assumes "distinct (map fst obj)"
  shows "((caller, callee) \<in> set (g_edges (gen_callgraph_from_file obj)) \<longleftrightarrow>
            (\<exists>callees. map_of obj caller = Some callees \<and> callee \<in> set callees)) \<and>
         (map_of obj f = Some [] \<longrightarrow>
            (has_node (gen_callgraph_from_file obj) f \<longleftrightarrow>
               (\<exists>caller callees. caller \<noteq> f \<and> map_of obj caller = Some callees \<and> f \<in> set callees)))"
proof -
  have m: "\<And>k vs. ((k, vs) \<in> set obj) = (map_of obj k = Some vs)"
    using assms by simp
  show ?thesis
  proof (intro conjI impI)
    show "(caller, callee) \<in> set (g_edges (gen_callgraph_from_file obj)) \<longleftrightarrow>
            (\<exists>callees. map_of obj caller = Some callees \<and> callee \<in> set callees)"
      by (simp add: gen_callgraph_edges m)
  next
    assume f: "map_of obj f = Some []"
    show "has_node (gen_callgraph_from_file obj) f \<longleftrightarrow>
            (\<exists>caller callees. caller \<noteq> f \<and> map_of obj caller = Some callees \<and> f \<in> set callees)"
    proof
      assume "has_node (gen_callgraph_from_file obj) f"
      then obtain k vs where kv: "map_of obj k = Some vs" "vs \<noteq> []" "f = k \<or> f \<in> set vs"
        unfolding has_node_def gen_callgraph_nodes m by blast
      from kv(1,2) f have "k \<noteq> f" by auto
      with kv show "\<exists>caller callees. caller \<noteq> f \<and> map_of obj caller = Some callees \<and> f \<in> set callees"
        by blast
    next
      assume "\<exists>caller callees. caller \<noteq> f \<and> map_of obj caller = Some callees \<and> f \<in> set callees"
      then obtain k vs where kv: "map_of obj k = Some vs" "f \<in> set vs" by blast
      then have "vs \<noteq> []" by auto
      with kv show "has_node (gen_callgraph_from_file obj) f"
        unfolding has_node_def gen_callgraph_nodes m by blast
    qed
  qed
qed

text \<open>
  The mapping \<^verbatim>\<open>{"LLVMFuzzerTestOneInput": [], "main": ["helper"]}\<close>: the edge of
  \<open>main\<close> is there, the entry function without callees is no node.
\<close>

theorem gen_callgraph_from_file_edges_witness:
  "distinct (map fst entry_without_callees) \<and>
   map_of entry_without_callees ''LLVMFuzzerTestOneInput'' = Some [] \<and>
   \<not> has_node (gen_callgraph_from_file entry_without_callees) ''LLVMFuzzerTestOneInput'' \<and>
   (''main'', ''helper'') \<in> set (g_edges (gen_callgraph_from_file entry_without_callees))"
proof -
  have d: "distinct (map fst entry_without_callees)"
    by (simp add: entry_without_callees_def)
  show ?thesis
    using d gen_callgraph_from_file_edges [OF d, of "''main''" "''helper''" "''LLVMFuzzerTestOneInput''"]
    by (simp add: entry_without_callees_def)
qed

text \<open>
  The hypotheses of C3 hold for the example graph and the sink \<open>sink\<close>: a search that
  finishes in time returns the entry node and the sink, and nodes of the graph only.
\<close>

theorem get_call_path_to_sound_witness:
  "\<exists>r. find_paths [(''harness'', gen_callgraph_from_file example_callgraph)] ''sink'' = Inr r \<and>
       get_call_path_to [(''harness'', gen_callgraph_from_file example_callgraph)] ''sink'' 600 False = Inr r \<and>
       {''LLVMFuzzerTestOneInput'', ''sink''} \<subseteq> set r \<and>
       (\<forall>n \<in> set r. \<exists>hg \<in> set [(''harness'', gen_callgraph_from_file example_callgraph)]. has_node (snd hg) n)"
proof -
  let ?g = "gen_callgraph_from_file example_callgraph"
  have s: "start_node_of ?g = ''LLVMFuzzerTestOneInput''"
    by (simp add: example_graph start_node_of_def has_node_def)
  have e: "(''LLVMFuzzerTestOneInput'', ''a'') \<in> set (g_edges ?g)" "(''a'', ''b'') \<in> set (g_edges ?g)"
    "(''b'', ''sink'') \<in> set (g_edges ?g)"
    by (simp_all add: example_graph)
  have r: "(start_node_of ?g, ''sink'') \<in> (set (g_edges ?g))\<^sup>*"
    unfolding s using e by (meson rtrancl.rtrancl_into_rtrancl rtrancl.rtrancl_refl)
  have n: "has_node ?g ''sink''"
    by (simp add: example_graph has_node_def)
  have w: "list_all (\<lambda>hg. wf_digraph (snd hg)) [(''harness'', ?g)]"
    by (simp add: gen_callgraph_wf)
  show ?thesis
    using get_call_path_to_sound [of "[(''harness'', ?g)]" "''sink''" 600 False "''harness''" ?g] w n r
    unfolding s by auto
qed

text \<open>
  C3 as stated fails when the search times out. In the example graph the sink \<open>sink\<close> is a
  node, reachable from the entry node \<open>LLVMFuzzerTestOneInput\<close>; the call that timed out
  returns the sink alone, and the entry node is not in the result.
\<close>

theorem get_call_path_to_timed_out_lacks_entry:
  "wf_digraph (gen_callgraph_from_file example_callgraph) \<and>
   has_node (gen_callgraph_from_file example_callgraph) ''sink'' \<and>
   start_node_of (gen_callgraph_from_file example_callgraph) = ''LLVMFuzzerTestOneInput'' \<and>
   (''LLVMFuzzerTestOneInput'', ''sink'') \<in> (set (g_edges (gen_callgraph_from_file example_callgraph)))\<^sup>* \<and>
   get_call_path_to [(''harness'', gen_callgraph_from_file example_callgraph)] ''sink'' 600 True = Inr [''sink''] \<and>
   ''LLVMFuzzerTestOneInput'' \<notin> set [''sink'']"
proof -
  let ?g = "gen_callgraph_from_file example_callgraph"
  have e: "(''LLVMFuzzerTestOneInput'', ''a'') \<in> set (g_edges ?g)" "(''a'', ''b'') \<in> set (g_edges ?g)"
    "(''b'', ''sink'') \<in> set (g_edges ?g)"
    by (simp_all add: example_graph)
  have r: "(''LLVMFuzzerTestOneInput'', ''sink'') \<in> (set (g_edges ?g))\<^sup>*"
    using e by (meson rtrancl.rtrancl_into_rtrancl rtrancl.rtrancl_refl)
  have s: "start_node_of ?g = ''LLVMFuzzerTestOneInput''" "has_node ?g ''sink''"
    by (simp_all add: example_graph start_node_of_def has_node_def)
  show ?thesis
    using r s by (simp add: gen_callgraph_wf get_call_path_to_def with_timeout_def)
qed

section \<open>Properties of the resolver\<close>

text \<open>
  When the fuzzy match, the literal lookup and the search by source location all fail,
  \<open>get_function_index_from_poi\<close> raises the \<open>ValueError\<close> that says so.
\<close>

lemma get_function_index_from_poi_unresolved:
  assumes "or_none (find_matching_index fr s) = None"
    and "or_none (fr_get fr s) = None"
    and "resolve_source_location fr (to_loc s None) = Inr [] \<or>
         (\<exists>e. resolve_source_location fr (to_loc s None) = Inl e)"
  shows "get_function_index_from_poi fr to_loc s =
           Inl (ValueError (''Function index '' @ s @ '' could not be resolved.''))"
  using assms by (auto simp: get_function_index_from_poi_def could_not_be_resolved_def)

text \<open>
  \<^bold>\<open>C4.\<close> The claim's second half does not hold of the code. When the fuzzy match names a
  key whose lookup fails, \<open>get_function_index_from_poi\<close> raises \<open>AttributeError\<close>, not the
  resolution error; when the lookup of the top-ranked candidate fails, it returns
  \<^verbatim>\<open>None\<close> instead of a function index.
\<close>

theorem get_function_index_from_poi_absent:
  "get_function_index_from_poi stale_match_resolver (\<lambda>s fi. ()) ''foo'' = Inl AttributeError \<and>
   get_function_index_from_poi stale_candidate_resolver (\<lambda>s fi. ()) ''foo'' = Inr None"
  by (simp add: get_function_index_from_poi_def stale_match_resolver_def
      stale_candidate_resolver_def or_none_def)

section \<open>Properties of the coverage-gap catalog\<close>

lemma source_resolver_json:
  "0 < n \<Longrightarrow> n \<le> 100 \<Longrightarrow>
     get_funcindex_from_json source_resolver func_name path n = Inr (Some (''index:'' @ path))"
  using sublist_append_leftI [of path "''index:''"]
  by (simp add: get_funcindex_from_json_def get_funcindex_def source_resolver_def list_of_set_def)

lemma optimal_targets_loop_converted:
  "optimal_targets_loop fr rp entries pois = (pois', e) \<Longrightarrow>
     \<exists>new es. pois' = pois @ new \<and> subseq es entries \<and> list_all2 (converted_from fr rp) new es"
proof (induction entries arbitrary: pois)
  case Nil
  then show ?case by simp
next
  case (Cons x rest)
  let ?k = "get_funcindex_from_json fr (dict_get (raw_function_name x) '''')
              (rp (dict_get (function_filename x) '''')) (dict_get (source_line_begin x) 0)"
  consider (skip) "optimal_targets_loop fr rp (x # rest) pois = optimal_targets_loop fr rp rest pois"
    | (stop) "optimal_targets_loop fr rp (x # rest) pois = (pois, e)"
    | (add) k where "is_reached x = Some True" "dict_get (source_line_begin x) 0 \<noteq> 0"
        "dict_get (source_line_end x) 0 \<noteq> 0" "?k = Inr (Some k)"
        "optimal_targets_loop fr rp (x # rest) pois =
           optimal_targets_loop fr rp rest
             (pois @ [\<lparr>o_function_index_key = k,
                       o_runtime_coverage_percent = dict_get (runtime_coverage_percent x) 0,
                       o_accummulated_complexity = dict_get (accummulated_complexity x) 0\<rparr>])"
  proof (cases "dict_get (is_reached x) False = False \<or> dict_get (source_line_begin x) 0 = 0 \<or>
                dict_get (source_line_end x) 0 = 0")
    case True
    then show ?thesis using skip by (auto simp: Let_def)
  next
    case False
    then have r: "is_reached x = Some True"
      by (cases "is_reached x") (auto simp: dict_get_def)
    show ?thesis
    proof (cases ?k)
      case (Inl err)
      with False Cons.prems show ?thesis using stop by (simp add: Let_def)
    next
      case (Inr ko)
      show ?thesis
      proof (cases ko)
        case None
        with Inr False show ?thesis using skip by (simp add: Let_def)
      next
        case (Some k)
        show ?thesis
        proof (cases "length pois > 100")
          case True
          with Some Inr False Cons.prems show ?thesis using stop by (simp add: Let_def)
        next
          case nf: False
          with Some Inr False r show ?thesis using add [of k] by (simp add: Let_def)
        qed
      qed
    qed
  qed
  then show ?case
  proof cases
    case skip
    with Cons.prems have "optimal_targets_loop fr rp rest pois = (pois', e)" by simp
    from Cons.IH [OF this] obtain new es where
      "pois' = pois @ new" "subseq es rest" "list_all2 (converted_from fr rp) new es" by blast
    then show ?thesis by (intro exI [of _ new] exI [of _ es]) auto
  next
    case stop
    with Cons.prems have "pois' = pois" by simp
    then show ?thesis by (intro exI [of _ "[]"]) auto
  next
    case (add k)
    let ?p = "\<lparr>o_function_index_key = k,
               o_runtime_coverage_percent = dict_get (runtime_coverage_percent x) 0,
               o_accummulated_complexity = dict_get (accummulated_complexity x) 0\<rparr>"
    from add(5) Cons.prems have "optimal_targets_loop fr rp rest (pois @ [?p]) = (pois', e)" by simp
    from Cons.IH [OF this] obtain new es where
      n: "pois' = (pois @ [?p]) @ new" "subseq es rest" "list_all2 (converted_from fr rp) new es" by blast
    have "converted_from fr rp ?p x"
      using add(1-4) by (simp add: converted_from_def)
    with n show ?thesis by (intro exI [of _ "?p # new"] exI [of _ "x # es"]) auto
  qed
qed

text \<open>
  \<^bold>\<open>C8.\<close> The POIs that a run of \<open>parse_poi_from_optimal_targets\<close> appends are, in order,
  the conversions of a subsequence of the report's entries, and every entry of that
  subsequence is flagged reached (\<^verbatim>\<open>is_reached\<close> is \<^verbatim>\<open>true\<close>) and has a start line and an end
  line other than zero. So an entry flagged \<^verbatim>\<open>is_reached: false\<close>, or with a zero start or
  end line, is never converted. Every appended POI carries the runtime coverage percent
  and the accumulated complexity of its entry (\<open>0\<close> where the entry has none).
\<close>

theorem optimal_targets_conversion:
  assumes "parse_poi_from_optimal_targets fr resolve_path functions pois = (pois', e)"
  shows "\<exists>new es. pois' = pois @ new \<and> subseq es (dict_get functions []) \<and>
           list_all2 (converted_from fr resolve_path) new es \<and>
           (\<forall>function_obj \<in> set es.
               is_reached function_obj = Some True \<and>
               dict_get (source_line_begin function_obj) 0 \<noteq> 0 \<and>
               dict_get (source_line_end function_obj) 0 \<noteq> 0) \<and>
           map o_runtime_coverage_percent new = map (\<lambda>f. dict_get (runtime_coverage_percent f) 0) es \<and>
           map o_accummulated_complexity new = map (\<lambda>f. dict_get (accummulated_complexity f) 0) es"
proof -
  from assms have "optimal_targets_loop fr resolve_path (dict_get functions []) pois = (pois', e)"
    by (simp add: parse_poi_from_optimal_targets_def)
  from optimal_targets_loop_converted [OF this] obtain new es where
    n: "pois' = pois @ new" "subseq es (dict_get functions [])"
       "list_all2 (converted_from fr resolve_path) new es" by blast
  from n(3) have "(\<forall>function_obj \<in> set es.
               is_reached function_obj = Some True \<and>
               dict_get (source_line_begin function_obj) 0 \<noteq> 0 \<and>
               dict_get (source_line_end function_obj) 0 \<noteq> 0) \<and>
           map o_runtime_coverage_percent new = map (\<lambda>f. dict_get (runtime_coverage_percent f) 0) es \<and>
           map o_accummulated_complexity new = map (\<lambda>f. dict_get (accummulated_complexity f) 0) es"
    by (induction rule: list_all2_induct) (auto simp: converted_from_def)
  with n show ?thesis by blast
qed

text \<open>
  A report with an unreached entry, an entry whose end line is zero and a reached entry:
  only the last one becomes a POI.
\<close>

theorem optimal_targets_conversion_witness:
  "parse_poi_from_optimal_targets source_resolver (\<lambda>p. p)
      (Some [unreached_entry, lineless_entry, reached_entry]) [] = ([reached_poi], None) \<and>
   (\<exists>new es. [reached_poi] = [] @ new \<and> subseq es [unreached_entry, lineless_entry, reached_entry] \<and>
           list_all2 (converted_from source_resolver (\<lambda>p. p)) new es \<and>
           (\<forall>function_obj \<in> set es.
               is_reached function_obj = Some True \<and>
               dict_get (source_line_begin function_obj) 0 \<noteq> 0 \<and>
               dict_get (source_line_end function_obj) 0 \<noteq> 0) \<and>
           map o_runtime_coverage_percent new = map (\<lambda>f. dict_get (runtime_coverage_percent f) 0) es \<and>
           map o_accummulated_complexity new = map (\<lambda>f. dict_get (accummulated_complexity f) 0) es)"
proof -
  have r: "parse_poi_from_optimal_targets source_resolver (\<lambda>p. p)
      (Some [unreached_entry, lineless_entry, reached_entry]) [] = ([reached_poi], None)"
    by (simp add: parse_poi_from_optimal_targets_def dict_get_def unreached_entry_def
        lineless_entry_def reached_entry_def reached_poi_def source_resolver_json)
  show ?thesis
    using r optimal_targets_conversion [OF r] by (simp add: dict_get_def)
qed

lemma optimal_targets_loop_replicate:
  assumes k: "get_funcindex_from_json fr (dict_get (raw_function_name x) '''')
                (rp (dict_get (function_filename x) '''')) (dict_get (source_line_begin x) 0) = Inr (Some k)"
    and r: "is_reached x = Some True"
    and b: "dict_get (source_line_begin x) 0 \<noteq> 0" "dict_get (source_line_end x) 0 \<noteq> 0"
  shows "optimal_targets_loop fr rp (replicate n x) pois =
           (pois @ replicate (min n (101 - length pois))
                     \<lparr>o_function_index_key = k,
                      o_runtime_coverage_percent = dict_get (runtime_coverage_percent x) 0,
                      o_accummulated_complexity = dict_get (accummulated_complexity x) 0\<rparr>, None)"
proof (induction n arbitrary: pois)
  case 0
  show ?case by simp
next
  case (Suc n)
  let ?p = "\<lparr>o_function_index_key = k,
              o_runtime_coverage_percent = dict_get (runtime_coverage_percent x) 0,
              o_accummulated_complexity = dict_get (accummulated_complexity x) 0\<rparr>"
  have nr: "dict_get (is_reached x) False \<noteq> False" using r by (simp add: dict_get_def)
  show ?case
  proof (cases "length pois > 100")
    case True
    then show ?thesis using k nr b by (simp add: Let_def)
  next
    case False
    then have "optimal_targets_loop fr rp (replicate (Suc n) x) pois =
               optimal_targets_loop fr rp (replicate n x) (pois @ [?p])"
      using k nr b by (simp add: Let_def)
    also have "\<dots> = ((pois @ [?p]) @ replicate (min n (101 - length (pois @ [?p]))) ?p, None)"
      by (rule Suc.IH)
    also have "(pois @ [?p]) @ replicate (min n (101 - length (pois @ [?p]))) ?p =
               pois @ replicate (Suc (min n (100 - length pois))) ?p"
      by simp
    also have "Suc (min n (100 - length pois)) = min (Suc n) (101 - length pois)"
      using False by simp
    finally show ?thesis .
  qed
qed

text \<open>
  \<^bold>\<open>C1.\<close> The cap of 100 does not hold of the coverage-gap catalog. From the empty catalog,
  a report of 150 reached entries that all resolve leaves 101 POIs: the test
  \<^verbatim>\<open>len(self._pois) > 100\<close> before the append lets the 101st entry in.
\<close>

theorem oss_add_poi_exceeds_cap:
  "length (fst (oss_add_poi source_resolver (\<lambda>p. p) (Some (replicate 150 reached_entry)) [])) = 101"
proof -
  have "get_funcindex_from_json source_resolver ''target'' ''/src/lib.c'' 5 = Inr (Some ''index:/src/lib.c'')"
    using source_resolver_json [of 5 "''target''" "''/src/lib.c''"] by simp
  then have "optimal_targets_loop source_resolver (\<lambda>p. p) (replicate 150 reached_entry) [] =
        ([] @ replicate (min 150 (101 - length ([] :: int oss_poi list)))
                     \<lparr>o_function_index_key = ''index:/src/lib.c'',
                      o_runtime_coverage_percent = dict_get (runtime_coverage_percent reached_entry) 0,
                      o_accummulated_complexity = dict_get (accummulated_complexity reached_entry) 0\<rparr>, None)"
    by (intro optimal_targets_loop_replicate) (simp_all add: reached_entry_def dict_get_def)
  then show ?thesis
    by (simp add: oss_add_poi_def parse_poi_from_optimal_targets_def dict_get_def)
qed

section \<open>Properties of the crash-report catalog\<close>

lemma note_leader_fields:
  "note_leader fr k leader st = Inr (l, st3) \<Longrightarrow>
     ps_pois st3 = ps_pois st \<and> ps_seen_func_indices st3 = ps_seen_func_indices st \<and>
     ps_first_leader st3 = ps_first_leader st \<and> ps_submitted st3 = ps_submitted st"
  by (auto simp: note_leader_def Let_def split: sum.splits option.splits)

lemma append_poi_fields:
  "ps_seen_func_indices (append_poi k es er b l st) = ps_seen_func_indices st \<and>
   ps_submitted (append_poi k es er b l st) = ps_submitted st \<and>
   ps_pois (append_poi k es er b l st) =
     (if length (ps_pois st) < 100
      then ps_pois st @ [\<lparr>c_function_index_key = k, c_error_summary = es, c_error_str = er,
                           c_backtrace = b,
                           c_function_contains_vulnerability = (ps_first_leader st = None)\<rparr>]
      else ps_pois st)"
  by (simp add: append_poi_def Let_def)

lemma walk_frames_step:
  obtains
    (stop) "stop_frame func"
      "\<And>rest. walk_frames fr es er b ((func, loc) # rest) leader st = (st, None)"
  | (skip) "\<not> stop_frame func" "\<And>fp ln col. rsplit2 (CHR '':'') loc \<noteq> [fp, ln, col]"
      "\<And>rest. walk_frames fr es er b ((func, loc) # rest) leader st =
               walk_frames fr es er b rest leader st"
  | (raise_int) fp ln col e where "\<not> stop_frame func" "rsplit2 (CHR '':'') loc = [fp, ln, col]"
      "py_int ln = Inl e"
      "\<And>rest. walk_frames fr es er b ((func, loc) # rest) leader st = (st, Some e)"
  | (raise_resolver) fp ln col n e where "\<not> stop_frame func" "rsplit2 (CHR '':'') loc = [fp, ln, col]"
      "py_int ln = Inr n" "get_funcindex_from_backtrace fr func (path_name fp) n = Inl e"
      "\<And>rest. walk_frames fr es er b ((func, loc) # rest) leader st =
               (st\<lparr>ps_submitted := ps_submitted st @ [(func, path_name fp, n)]\<rparr>, Some e)"
  | (known) fp ln col n where "\<not> stop_frame func" "rsplit2 (CHR '':'') loc = [fp, ln, col]"
      "py_int ln = Inr n"
      "get_funcindex_from_backtrace fr func (path_name fp) n = Inr None \<or>
       (\<exists>k. get_funcindex_from_backtrace fr func (path_name fp) n = Inr (Some k) \<and>
            k \<in> ps_seen_func_indices st)"
      "\<And>rest. walk_frames fr es er b ((func, loc) # rest) leader st =
               walk_frames fr es er b rest leader
                 (st\<lparr>ps_submitted := ps_submitted st @ [(func, path_name fp, n)]\<rparr>)"
  | (raise_leader) fp ln col n k e where "\<not> stop_frame func" "rsplit2 (CHR '':'') loc = [fp, ln, col]"
      "py_int ln = Inr n" "get_funcindex_from_backtrace fr func (path_name fp) n = Inr (Some k)"
      "k \<notin> ps_seen_func_indices st"
      "\<And>rest. walk_frames fr es er b ((func, loc) # rest) leader st =
               (st\<lparr>ps_submitted := ps_submitted st @ [(func, path_name fp, n)],
                    ps_seen_func_indices := insert k (ps_seen_func_indices st)\<rparr>, Some e)"
  | (add) fp ln col n k l st3 where "\<not> stop_frame func" "rsplit2 (CHR '':'') loc = [fp, ln, col]"
      "py_int ln = Inr n" "get_funcindex_from_backtrace fr func (path_name fp) n = Inr (Some k)"
      "k \<notin> ps_seen_func_indices st"
      "note_leader fr k leader
         (st\<lparr>ps_submitted := ps_submitted st @ [(func, path_name fp, n)],
             ps_seen_func_indices := insert k (ps_seen_func_indices st)\<rparr>) = Inr (l, st3)"
      "\<And>rest. walk_frames fr es er b ((func, loc) # rest) leader st =
               walk_frames fr es er b rest (Some l) (append_poi k es er b l st3)"
proof (cases "stop_frame func")
  case True
  then show ?thesis using stop by (auto simp: stop_frame_def)
next
  case ns: False
  then have ns': "\<not> sublist ''LLVMFuzzerTestOneInput'' func" "\<not> sublist ''__libc_start_main'' func"
    by (auto simp: stop_frame_def)
  show ?thesis
  proof (cases "\<exists>fp ln col. rsplit2 (CHR '':'') loc = [fp, ln, col]")
    case False
    then have "\<And>rest. walk_frames fr es er b ((func, loc) # rest) leader st =
                     walk_frames fr es er b rest leader st"
      using ns' by (auto split: list.splits)
    with False ns show ?thesis using skip by blast
  next
    case True
    then obtain fp ln col where sp: "rsplit2 (CHR '':'') loc = [fp, ln, col]" by blast
    show ?thesis
    proof (cases "py_int ln")
      case (Inl e)
      with sp ns' have "\<And>rest. walk_frames fr es er b ((func, loc) # rest) leader st = (st, Some e)"
        by simp
      with ns sp Inl show ?thesis using raise_int by blast
    next
      case (Inr n)
      let ?st1 = "st\<lparr>ps_submitted := ps_submitted st @ [(func, path_name fp, n)]\<rparr>"
      show ?thesis
      proof (cases "get_funcindex_from_backtrace fr func (path_name fp) n")
        case rl: (Inl e)
        with sp ns' Inr
        have "\<And>rest. walk_frames fr es er b ((func, loc) # rest) leader st = (?st1, Some e)"
          by (simp add: Let_def)
        with ns sp Inr rl show ?thesis using raise_resolver by blast
      next
        case rr: (Inr ko)
        show ?thesis
        proof (cases "ko = None \<or> (\<exists>k. ko = Some k \<and> k \<in> ps_seen_func_indices st)")
          case True
          with sp ns' Inr rr
          have "\<And>rest. walk_frames fr es er b ((func, loc) # rest) leader st =
                       walk_frames fr es er b rest leader ?st1"
            by (auto simp: Let_def)
          with ns sp Inr rr True show ?thesis using known [of fp ln col n] by auto
        next
          case False
          then obtain k where k: "ko = Some k" "k \<notin> ps_seen_func_indices st" by (cases ko) auto
          let ?st2 = "st\<lparr>ps_submitted := ps_submitted st @ [(func, path_name fp, n)],
                          ps_seen_func_indices := insert k (ps_seen_func_indices st)\<rparr>"
          show ?thesis
          proof (cases "note_leader fr k leader ?st2")
            case nl: (Inl e)
            with sp ns' Inr rr k
            have "\<And>rest. walk_frames fr es er b ((func, loc) # rest) leader st = (?st2, Some e)"
              by (simp add: Let_def)
            with ns sp Inr rr k show ?thesis using raise_leader by blast
          next
            case nr: (Inr lst)
            obtain l st3 where lst: "lst = (l, st3)" by (cases lst)
            with nr sp ns' Inr rr k
            have "\<And>rest. walk_frames fr es er b ((func, loc) # rest) leader st =
                         walk_frames fr es er b rest (Some l) (append_poi k es er b l st3)"
              by (simp add: Let_def)
            with ns sp Inr rr k nr lst show ?thesis using add by blast
          qed
        qed
      qed
    qed
  qed
qed

lemma walk_inv_submit:
  assumes "walk_inv fr old st"
    and "\<And>k. get_funcindex_from_backtrace fr func fname n = Inr (Some k) \<Longrightarrow> k \<in> seen'"
    and "ps_seen_func_indices st \<subseteq> seen'"
  shows "walk_inv fr old (st\<lparr>ps_submitted := ps_submitted st @ [(func, fname, n)],
                             ps_seen_func_indices := seen'\<rparr>)"
  using assms unfolding walk_inv_def by auto

lemma walk_inv_append:
  assumes "walk_inv fr old st3" "k \<in> ps_seen_func_indices st3"
    "k \<notin> set (map c_function_index_key (drop (length old) (ps_pois st3)))"
  shows "walk_inv fr old (append_poi k es er b l st3)"
proof -
  from assms(1) obtain new where new: "ps_pois st3 = old @ new"
    "distinct (map c_function_index_key new)"
    "set (map c_function_index_key new) \<subseteq> ps_seen_func_indices st3"
    unfolding walk_inv_def by blast
  let ?p = "\<lparr>c_function_index_key = k, c_error_summary = es, c_error_str = er,
              c_backtrace = b, c_function_contains_vulnerability = (ps_first_leader st3 = None)\<rparr>"
  have kn: "k \<notin> set (map c_function_index_key new)" using assms(3) new(1) by simp
  have "\<exists>new'. ps_pois (append_poi k es er b l st3) = old @ new' \<and>
              distinct (map c_function_index_key new') \<and>
              set (map c_function_index_key new') \<subseteq> ps_seen_func_indices st3"
  proof (cases "length (ps_pois st3) < 100")
    case True
    then have "ps_pois (append_poi k es er b l st3) = old @ (new @ [?p])"
      using new(1) by (simp add: append_poi_fields)
    moreover have "distinct (map c_function_index_key (new @ [?p]))" using new(2) kn by simp
    moreover have "set (map c_function_index_key (new @ [?p])) \<subseteq> ps_seen_func_indices st3"
      using new(3) assms(2) by simp
    ultimately show ?thesis by blast
  next
    case False
    then have "ps_pois (append_poi k es er b l st3) = old @ new"
      using new(1) by (simp add: append_poi_fields)
    with new show ?thesis by blast
  qed
  with assms(1) show ?thesis
    unfolding walk_inv_def by (simp add: append_poi_fields)
qed

lemma walk_frames_inv:
  "walk_frames fr es er b frames leader st = (st', e) \<Longrightarrow> walk_inv fr old st \<Longrightarrow>
     walk_inv fr old st'"
proof (induction frames arbitrary: leader st)
  case Nil
  then show ?case by simp
next
  case (Cons frame rest)
  obtain func loc where frame: "frame = (func, loc)" by (cases frame)
  have full: "walk_frames fr es er b ((func, loc) # rest) leader st = (st', e)"
    using Cons.prems(1) frame by simp
  show ?case
  proof (cases rule: walk_frames_step [of func fr es er b loc leader st])
    case stop
    with full Cons.prems(2) show ?thesis by simp
  next
    case skip
    from Cons.IH [OF _ Cons.prems(2)] full skip(3) show ?thesis by simp
  next
    case (raise_int fp ln col e')
    with full Cons.prems(2) show ?thesis by simp
  next
    case (raise_resolver fp ln col n e')
    have "walk_inv fr old (st\<lparr>ps_submitted := ps_submitted st @ [(func, path_name fp, n)],
                               ps_seen_func_indices := ps_seen_func_indices st\<rparr>)"
      using Cons.prems(2) raise_resolver(4) by (intro walk_inv_submit) auto
    with full raise_resolver(5) show ?thesis by simp
  next
    case (known fp ln col n)
    have "walk_inv fr old (st\<lparr>ps_submitted := ps_submitted st @ [(func, path_name fp, n)],
                               ps_seen_func_indices := ps_seen_func_indices st\<rparr>)"
      using Cons.prems(2) known(4) by (intro walk_inv_submit) auto
    then have "walk_inv fr old (st\<lparr>ps_submitted := ps_submitted st @ [(func, path_name fp, n)]\<rparr>)"
      by simp
    from Cons.IH [OF _ this] full known(5) show ?thesis by simp
  next
    case (raise_leader fp ln col n k e')
    have "walk_inv fr old (st\<lparr>ps_submitted := ps_submitted st @ [(func, path_name fp, n)],
                               ps_seen_func_indices := insert k (ps_seen_func_indices st)\<rparr>)"
      using Cons.prems(2) raise_leader(4) by (intro walk_inv_submit) auto
    with full raise_leader(6) show ?thesis by simp
  next
    case (add fp ln col n k l st3)
    let ?st2 = "st\<lparr>ps_submitted := ps_submitted st @ [(func, path_name fp, n)],
                    ps_seen_func_indices := insert k (ps_seen_func_indices st)\<rparr>"
    have i2: "walk_inv fr old ?st2"
      using Cons.prems(2) add(4) by (intro walk_inv_submit) auto
    from note_leader_fields [OF add(6)]
    have f3: "ps_pois st3 = ps_pois st" "ps_seen_func_indices st3 = insert k (ps_seen_func_indices st)"
      "ps_submitted st3 = ps_submitted ?st2" by simp_all
    have i3: "walk_inv fr old st3"
      using i2 unfolding walk_inv_def f3 by simp
    from Cons.prems(2) obtain new where new: "ps_pois st = old @ new"
      "set (map c_function_index_key new) \<subseteq> ps_seen_func_indices st"
      unfolding walk_inv_def by blast
    have "k \<notin> set (map c_function_index_key (drop (length old) (ps_pois st3)))"
      using new add(5) f3(1) by auto
    with i3 have "walk_inv fr old (append_poi k es er b l st3)"
      by (intro walk_inv_append) (simp_all add: f3)
    from Cons.IH [OF _ this] full add(7) show ?thesis by simp
  qed
qed

lemma walk_frames_bounds:
  "walk_frames fr es er b frames leader st = (st', e) \<Longrightarrow>
     length (ps_pois st) \<le> length (ps_pois st') \<and>
     (length (ps_pois st) \<le> 100 \<longrightarrow> length (ps_pois st') \<le> 100) \<and>
     prefix (ps_submitted st) (ps_submitted st')"
proof (induction frames arbitrary: leader st)
  case Nil
  then show ?case by simp
next
  case (Cons frame rest)
  obtain func loc where frame: "frame = (func, loc)" by (cases frame)
  have full: "walk_frames fr es er b ((func, loc) # rest) leader st = (st', e)"
    using Cons.prems(1) frame by simp
  show ?case
  proof (cases rule: walk_frames_step [of func fr es er b loc leader st])
    case stop
    with full show ?thesis by simp
  next
    case skip
    from Cons.IH [of leader st] full skip(3) show ?thesis by simp
  next
    case (raise_int fp ln col e')
    with full show ?thesis by simp
  next
    case (raise_resolver fp ln col n e')
    with full show ?thesis by auto
  next
    case (known fp ln col n)
    from Cons.IH [of leader "st\<lparr>ps_submitted := ps_submitted st @ [(func, path_name fp, n)]\<rparr>"]
      full known(5)
    show ?thesis by (auto dest: append_prefixD)
  next
    case (raise_leader fp ln col n k e')
    with full show ?thesis by auto
  next
    case (add fp ln col n k l st3)
    from note_leader_fields [OF add(6)]
    have f3: "ps_pois st3 = ps_pois st"
      "ps_submitted st3 = ps_submitted st @ [(func, path_name fp, n)]" by simp_all
    from Cons.IH [of "Some l" "append_poi k es er b l st3"] full add(7)
    show ?thesis by (auto simp: append_poi_fields f3 dest: append_prefixD split: if_splits)
  qed
qed

lemma walk_frames_full:
  "walk_frames fr es er b frames leader st = (st', None) \<Longrightarrow> length old \<le> length (ps_pois st) \<Longrightarrow>
     walk_full old st \<Longrightarrow> walk_full old st'"
proof (induction frames arbitrary: leader st)
  case Nil
  then show ?case by simp
next
  case (Cons frame rest)
  obtain func loc where frame: "frame = (func, loc)" by (cases frame)
  have full: "walk_frames fr es er b ((func, loc) # rest) leader st = (st', None)"
    using Cons.prems(1) frame by simp
  show ?case
  proof (cases rule: walk_frames_step [of func fr es er b loc leader st])
    case stop
    with full Cons.prems(3) show ?thesis by simp
  next
    case skip
    from Cons.IH [OF _ Cons.prems(2,3)] full skip(3) show ?thesis by simp
  next
    case (raise_int fp ln col e')
    with full show ?thesis by simp
  next
    case (raise_resolver fp ln col n e')
    with full show ?thesis by simp
  next
    case (known fp ln col n)
    let ?st1 = "st\<lparr>ps_submitted := ps_submitted st @ [(func, path_name fp, n)]\<rparr>"
    have "walk_full old ?st1" using Cons.prems(3) by (simp add: walk_full_def)
    from Cons.IH [OF _ _ this] full known(5) Cons.prems(2) show ?thesis by simp
  next
    case (raise_leader fp ln col n k e')
    with full show ?thesis by simp
  next
    case (add fp ln col n k l st3)
    from note_leader_fields [OF add(6)]
    have f3: "ps_pois st3 = ps_pois st" "ps_seen_func_indices st3 = insert k (ps_seen_func_indices st)"
      by simp_all
    have "walk_full old (append_poi k es er b l st3)"
      using Cons.prems(2,3) unfolding walk_full_def
      by (auto simp: append_poi_fields f3)
    moreover have "length old \<le> length (ps_pois (append_poi k es er b l st3))"
      using Cons.prems(2) by (simp add: append_poi_fields f3)
    ultimately show ?thesis using Cons.IH [of "Some l" "append_poi k es er b l st3"] full add(7)
      by simp
  qed
qed

lemma walk_blocks_inv:
  "walk_blocks fr es er blocks st = (st', e) \<Longrightarrow> walk_inv fr old st \<Longrightarrow> walk_inv fr old st'"
proof (induction blocks arbitrary: st)
  case Nil
  then show ?case by simp
next
  case (Cons block rest)
  obtain st1 e1 where w: "walk_frames fr es er block (findall_line_pattern (snd block)) None st = (st1, e1)"
    by (cases "walk_frames fr es er block (findall_line_pattern (snd block)) None st")
  from walk_frames_inv [OF w Cons.prems(2)] have i1: "walk_inv fr old st1" .
  show ?case
  proof (cases e1)
    case None
    with w Cons.prems(1) have "walk_blocks fr es er rest st1 = (st', e)" by simp
    from Cons.IH [OF this i1] show ?thesis .
  next
    case (Some x)
    with w Cons.prems(1) i1 show ?thesis by simp
  qed
qed

lemma walk_blocks_bounds:
  "walk_blocks fr es er blocks st = (st', e) \<Longrightarrow>
     length (ps_pois st) \<le> length (ps_pois st') \<and>
     (length (ps_pois st) \<le> 100 \<longrightarrow> length (ps_pois st') \<le> 100) \<and>
     prefix (ps_submitted st) (ps_submitted st')"
proof (induction blocks arbitrary: st)
  case Nil
  then show ?case by simp
next
  case (Cons block rest)
  obtain st1 e1 where w: "walk_frames fr es er block (findall_line_pattern (snd block)) None st = (st1, e1)"
    by (cases "walk_frames fr es er block (findall_line_pattern (snd block)) None st")
  note b1 = walk_frames_bounds [OF w]
  show ?case
  proof (cases e1)
    case None
    with w Cons.prems(1) have "walk_blocks fr es er rest st1 = (st', e)" by simp
    from Cons.IH [OF this] b1 show ?thesis by (auto intro: prefix_order.trans)
  next
    case (Some x)
    with w Cons.prems(1) b1 show ?thesis by simp
  qed
qed

lemma walk_blocks_full:
  "walk_blocks fr es er blocks st = (st', None) \<Longrightarrow> length old \<le> length (ps_pois st) \<Longrightarrow>
     walk_full old st \<Longrightarrow> walk_full old st'"
proof (induction blocks arbitrary: st)
  case Nil
  then show ?case by simp
next
  case (Cons block rest)
  obtain st1 e1 where w: "walk_frames fr es er block (findall_line_pattern (snd block)) None st = (st1, e1)"
    by (cases "walk_frames fr es er block (findall_line_pattern (snd block)) None st")
  show ?case
  proof (cases e1)
    case None
    with w Cons.prems(1) have r: "walk_blocks fr es er rest st1 = (st', None)" by simp
    from walk_frames_full [OF w [unfolded None] Cons.prems(2,3)] have f1: "walk_full old st1" .
    from walk_frames_bounds [OF w] Cons.prems(2) have "length old \<le> length (ps_pois st1)" by simp
    from Cons.IH [OF r this f1] show ?thesis .
  next
    case (Some x)
    with w Cons.prems(1) show ?thesis by simp
  qed
qed

lemma distinct_filter_key:
  "distinct (map f xs) \<Longrightarrow> k \<in> set (map f xs) \<Longrightarrow> length (filter (\<lambda>p. f p = k) xs) = 1"
proof (induction xs)
  case Nil
  then show ?case by simp
next
  case (Cons x xs)
  show ?case
  proof (cases "f x = k")
    case True
    from Cons.prems(1) have "f x \<notin> f ` set xs" by simp
    with True have "\<And>p. p \<in> set xs \<Longrightarrow> f p \<noteq> k" by blast
    then have "filter (\<lambda>p. f p = k) xs = []"
      by (simp add: filter_empty_conv)
    with True show ?thesis by simp
  next
    case False
    with Cons show ?thesis by auto
  qed
qed

text \<open>
  \<^bold>\<open>C7\<close>, as it holds of the code. The POIs that one ingestion of a crash report appends
  have pairwise distinct identities, all among the identities seen in the walk; every
  frame passed to the resolver and resolved has its identity among them. So two frames
  that resolve to one identity never give two POIs. When the ingestion ends without an
  exception and the catalog then holds fewer than 100 POIs, every identity seen has
  exactly one POI among the appended ones.
\<close>

theorem crash_report_one_poi_per_identity:
  assumes "parse_poi_from_crash_report fr report old = (st, e)"
  shows "\<exists>new. ps_pois st = old @ new \<and>
           distinct (map c_function_index_key new) \<and>
           set (map c_function_index_key new) \<subseteq> ps_seen_func_indices st \<and>
           (\<forall>q \<in> set (ps_submitted st). \<forall>k.
               get_funcindex_from_backtrace fr (fst q) (fst (snd q)) (snd (snd q)) = Inr (Some k) \<longrightarrow>
               k \<in> ps_seen_func_indices st) \<and>
           (e = None \<and> length (ps_pois st) < 100 \<longrightarrow>
              (\<forall>k \<in> ps_seen_func_indices st.
                  length (filter (\<lambda>p. c_function_index_key p = k) new) = 1))"
proof -
  let ?st0 = "start_state old"
  have w: "walk_blocks fr (report_error_summary report) (report_actual_error_str report)
             (report_matches report) ?st0 = (st, e)"
    using assms by (simp add: parse_poi_from_crash_report_def)
  have "walk_inv fr old ?st0" by (simp add: walk_inv_def start_state_def)
  from walk_blocks_inv [OF w this] obtain new where new: "ps_pois st = old @ new"
    "distinct (map c_function_index_key new)"
    "set (map c_function_index_key new) \<subseteq> ps_seen_func_indices st"
    and sub: "\<forall>q \<in> set (ps_submitted st). \<forall>k.
               get_funcindex_from_backtrace fr (fst q) (fst (snd q)) (snd (snd q)) = Inr (Some k) \<longrightarrow>
               k \<in> ps_seen_func_indices st"
    unfolding walk_inv_def by blast
  have one: "length (filter (\<lambda>p. c_function_index_key p = k) new) = 1"
    if "e = None" "length (ps_pois st) < 100" "k \<in> ps_seen_func_indices st" for k
  proof -
    have "walk_full old ?st0" by (simp add: walk_full_def start_state_def)
    from walk_blocks_full [OF w [unfolded that(1)] _ this] have "walk_full old st"
      by (simp add: start_state_def)
    with that(2,3) new(1) have "k \<in> set (map c_function_index_key new)"
      by (auto simp: walk_full_def)
    with new(2) show ?thesis by (rule distinct_filter_key)
  qed
  from new sub one show ?thesis by blast
qed


text \<open>
  A frame whose location does not split into three pieces (it has no column) leaves no
  trace: the walk goes on as if the frame were not there.
\<close>

lemma walk_frames_without_column:
  assumes "\<not> stop_frame func" "length (rsplit2 (CHR '':'') loc) \<noteq> 3"
  shows "walk_frames fr es er b ((func, loc) # rest) leader st =
           walk_frames fr es er b rest leader st"
proof (cases rule: walk_frames_step [of func fr es er b loc leader st])
  case stop
  with assms(1) show ?thesis by simp
next
  case skip
  then show ?thesis by simp
next
  case (raise_int fp ln col e)
  with assms(2) show ?thesis by simp
next
  case (raise_resolver fp ln col n e)
  with assms(2) show ?thesis by simp
next
  case (known fp ln col n)
  with assms(2) show ?thesis by simp
next
  case (raise_leader fp ln col n k e)
  with assms(2) show ?thesis by simp
next
  case (add fp ln col n k l st3)
  with assms(2) show ?thesis by simp
qed

text \<open>
  A frame whose line \<^verbatim>\<open>int()\<close> refuses ends the walk with the \<open>ValueError\<close>: the conversion
  is outside the \<^verbatim>\<open>try\<close>. Nothing is passed to the resolver for it.
\<close>

lemma walk_frames_int_raises:
  assumes "\<not> stop_frame func" "rsplit2 (CHR '':'') loc = [filepath, line_number, col]"
    and "py_int line_number = Inl e"
  shows "walk_frames fr es er b ((func, loc) # rest) leader st = (st, Some e)"
  using assms by (simp add: stop_frame_def)

text \<open>A line of more than 4300 digits is refused.\<close>

lemma py_int_exceeds_limit:
  assumes "int_max_str_digits < n"
  shows "py_int (replicate n (CHR ''1'')) =
           Inl (ValueError ''Exceeds the limit (4300 digits) for integer string conversion'')"
proof -
  from assms obtain m where n: "n = Suc m" by (cases n) auto
  have d: "is_digit (CHR ''1'')" by (simp add: is_digit_def)
  have nd: "no_double_underscore (replicate k (CHR ''1''))" for k
  proof (induction k rule: less_induct)
    case (less k)
    show ?case
    proof (cases k)
      case 0
      then show ?thesis by simp
    next
      case (Suc j)
      with less [of j] show ?thesis by (cases j) simp_all
    qed
  qed
  have hd1: "hd (replicate n (CHR ''1'')) = CHR ''1''" "last (replicate n (CHR ''1'')) = CHR ''1''"
    "replicate n (CHR ''1'') \<noteq> []"
    using n by (simp_all del: replicate.simps)
  have v: "valid_int_body (replicate n (CHR ''1''))"
    using d nd [of n] hd1 by (simp add: valid_int_body_def list_all_iff del: replicate.simps)
  have f: "filter (\<lambda>c. c \<noteq> CHR ''_'') (replicate n (CHR ''1'')) = replicate n (CHR ''1'')"
    by (simp del: replicate.simps)
  show ?thesis
    using v f hd1 assms by (simp add: py_int_def Let_def del: replicate.simps)
qed



text \<open>The crash-report catalog keeps the cap of 100 entries.\<close>

lemma crash_report_cap:
  assumes "parse_poi_from_crash_report fr report old = (st, e)" "length old \<le> 100"
  shows "length (ps_pois st) \<le> 100"
proof -
  have "walk_blocks fr (report_error_summary report) (report_actual_error_str report)
          (report_matches report) (start_state old) = (st, e)"
    using assms(1) by (simp add: parse_poi_from_crash_report_def)
  from walk_blocks_bounds [OF this] assms(2) show ?thesis
    by (simp add: start_state_def)
qed

text \<open>
  \<^bold>\<open>C9.\<close> Once \<open>add_poi\<close> has set up the record of call-path suffixes,
  \<open>crash_get_call_path_to\<close> returns, for every sink name: \<open>main\<close> when exactly one harness
  graph is cached and that graph has no node \<open>LLVMFuzzerTestOneInput\<close> but a node \<open>main\<close>;
  then the sink's name; then the suffix recorded for the sink, nothing when there is none.
  The value depends on the graphs only through those tests of node membership: no path
  is searched, and no timeout enters.
\<close>

theorem crash_get_call_path_to_value:
  assumes "block_leaders_call_path obj = Some recorded"
  shows "crash_get_call_path_to obj sink_funcname =
           Inr ((if length (harness_graphs obj) = 1 \<and>
                    \<not> has_node (snd (hd (harness_graphs obj))) ''LLVMFuzzerTestOneInput'' \<and>
                    has_node (snd (hd (harness_graphs obj))) ''main''
                 then [''main''] else []) @
                [sink_funcname] @
                (case recorded sink_funcname of None \<Rightarrow> [] | Some chain \<Rightarrow> chain))"
  using assms by (simp add: crash_get_call_path_to_def dict_get_def)

lemma source_resolver_backtrace:
  "0 < n \<Longrightarrow> n \<le> 100 \<Longrightarrow>
     get_funcindex_from_backtrace source_resolver func_name path n = Inr (Some (''index:'' @ path))"
  using sublist_append_leftI [of path "''index:''"]
  by (simp add: get_funcindex_from_backtrace_def get_funcindex_def source_resolver_def list_of_set_def)



text \<open>
  A crash report with two frames that resolve to the same identity: both frames reach the
  resolver, and the ingestion appends exactly one POI, flagged as the one that contains
  the vulnerability.
\<close>

theorem crash_report_one_poi_per_identity_witness:
  "map c_function_index_key
      (ps_pois (fst (parse_poi_from_crash_report source_resolver same_function_report []))) = [''index:a.c''] \<and>
   map c_function_contains_vulnerability
      (ps_pois (fst (parse_poi_from_crash_report source_resolver same_function_report []))) = [True] \<and>
   ps_submitted (fst (parse_poi_from_crash_report source_resolver same_function_report [])) =
      [(''foo'', ''a.c'', 12), (''bar'', ''a.c'', 20)] \<and>
   snd (parse_poi_from_crash_report source_resolver same_function_report []) = None \<and>
   (\<exists>new. ps_pois (fst (parse_poi_from_crash_report source_resolver same_function_report [])) = [] @ new \<and>
      distinct (map c_function_index_key new) \<and>
      length (filter (\<lambda>p. c_function_index_key p = ''index:a.c'') new) = 1)"
proof -
  let ?P = "parse_poi_from_crash_report source_resolver same_function_report []"
  have ev: "map c_function_index_key (ps_pois (fst ?P)) = [''index:a.c''] \<and>
            map c_function_contains_vulnerability (ps_pois (fst ?P)) = [True] \<and>
            ps_submitted (fst ?P) = [(''foo'', ''a.c'', 12), (''bar'', ''a.c'', 20)] \<and>
            snd ?P = None \<and> ''index:a.c'' \<in> ps_seen_func_indices (fst ?P)"
    by code_simp
  have "?P = (fst ?P, snd ?P)" by simp
  from crash_report_one_poi_per_identity [OF this] ev show ?thesis
    by auto
qed

text \<open>
  C7 as stated fails at the cap. In the report of 102 traces, the last two frames both
  resolve to the identity of \<^verbatim>\<open>x.c\<close> and both reach the resolver; by then the catalog holds
  100 POIs, and the identity gets none.
\<close>

theorem full_catalog_drops_identity:
  "get_funcindex_from_backtrace source_resolver ''f'' ''x.c'' 5 = Inr (Some ''index:x.c'') \<and>
   get_funcindex_from_backtrace source_resolver ''f'' ''x.c'' 6 = Inr (Some ''index:x.c'') \<and>
   seen_without_poi (fst (parse_poi_from_crash_report source_resolver full_report []))"
  by code_simp

text \<open>
  After the ingestion of a trace through \<^verbatim>\<open>a.c\<close> and \<^verbatim>\<open>b.c\<close>, with one harness graph that
  starts at \<open>main\<close>: the call path to the leader is \<open>main\<close>, the leader, and the function
  below it in the trace.
\<close>

theorem crash_get_call_path_to_value_witness:
  "crash_get_call_path_to (fst (crash_add_poi source_resolver leader_report fresh_catalog)) ''index:a.c'' =
     Inr [''main'', ''index:a.c'', ''index:b.c'']"
proof -
  let ?obj = "fst (crash_add_poi source_resolver leader_report fresh_catalog)"
  let ?recorded = "ps_block_leaders_call_path
                     (fst (parse_poi_from_crash_report source_resolver leader_report (c_pois fresh_catalog)))"
  have h: "block_leaders_call_path ?obj = Some ?recorded"
    by (simp add: crash_add_poi_def split: prod.splits)
  have ev: "Inr ((if length (harness_graphs ?obj) = 1 \<and>
                    \<not> has_node (snd (hd (harness_graphs ?obj))) ''LLVMFuzzerTestOneInput'' \<and>
                    has_node (snd (hd (harness_graphs ?obj))) ''main''
                 then [''main''] else []) @
                [''index:a.c''] @
                (case ?recorded ''index:a.c'' of None \<Rightarrow> [] | Some chain \<Rightarrow> chain)) =
            (Inr [''main'', ''index:a.c'', ''index:b.c''] :: exn + string list)"
    by code_simp
  show ?thesis
    using crash_get_call_path_to_value [OF h, of "''index:a.c''"] ev by simp
qed

end
